theory Spec2Isabelle
  imports Main "HOL-Library.Sublist"
begin

section \<open>Jamo: the state store (src/Store.js)\<close>

subsection \<open>Values and objects\<close>

text \<open>
  JavaScript values, as far as the store handles them.  A reference \<open>Ref a\<close> points to
  an object in the heap; \<open>Builtin n\<close> is the function that every plain object inherits
  under the name \<open>n\<close>, and \<open>ObjectPrototype\<close> is the object \<open>Object.prototype\<close> itself;
  the other constructors are immutable primitives.  Numbers occur as data only, the model
  does no arithmetic on them.
\<close>

type_synonym addr = nat

datatype jsval =
    Undefined | Null | JBool bool | JNum int | JStr string | Ref addr
  | Builtin string | ObjectPrototype

text \<open>
  All objects of the program are plain objects: the listener table is created as \<open>{}\<close>,
  the state object and the reducer table are the object literals handed to \<open>configure\<close>,
  and the component directory comes from \<open>JSON.parse\<close>.  A property read \<open>obj[k]\<close> on
  such an object finds the object's own property, and otherwise what \<open>Object.prototype\<close>
  provides under that name: one of its functions, or, under \<open>__proto__\<close>, the prototype.
\<close>

definition inherited_functions :: "string list" where
  "inherited_functions =
     [''constructor'', ''__defineGetter__'', ''__defineSetter__'', ''hasOwnProperty'',
      ''__lookupGetter__'', ''__lookupSetter__'', ''isPrototypeOf'', ''propertyIsEnumerable'',
      ''toString'', ''valueOf'', ''toLocaleString'']"

definition object_prototype :: "string \<Rightarrow> jsval option" where
  "object_prototype k =
     (if k = ''__proto__'' then Some ObjectPrototype
      else if k \<in> set inherited_functions then Some (Builtin k)
      else None)"

datatype 'a lookup = Own 'a | Inherited jsval | Missing

definition lookup :: "(string \<rightharpoonup> 'a) \<Rightarrow> string \<Rightarrow> 'a lookup" where
  "lookup m k =
     (case m k of
        Some x \<Rightarrow> Own x
      | None \<Rightarrow> (case object_prototype k of Some v \<Rightarrow> Inherited v | None \<Rightarrow> Missing))"

type_synonym obj = "string \<rightharpoonup> jsval"

type_synonym heap = "addr \<Rightarrow> obj"

definition read_prop :: "heap \<Rightarrow> addr \<Rightarrow> string \<Rightarrow> jsval" where
  "read_prop h a k =
     (case lookup (h a) k of Own v \<Rightarrow> v | Inherited v \<Rightarrow> v | Missing \<Rightarrow> Undefined)"

text \<open>\<open>set_prop\<close> defines or overwrites an own property.  The assignment \<open>obj[k] = v\<close> does
  the same, except under the name \<open>__proto__\<close> when the object has no own property of
  that name: then the setter of \<open>Object.prototype\<close> runs, which defines no property.  (For
  an object or \<open>null\<close> the setter replaces the prototype of \<open>obj\<close>; the model does not
  follow an object beyond that point.)\<close>

definition set_prop :: "addr \<Rightarrow> string \<Rightarrow> jsval \<Rightarrow> heap \<Rightarrow> heap" where
  "set_prop a k v h = h(a := (h a)(k \<mapsto> v))"

definition assign_prop :: "addr \<Rightarrow> string \<Rightarrow> jsval \<Rightarrow> heap \<Rightarrow> heap" where
  "assign_prop a k v h = (if k = ''__proto__'' \<and> h a k = None then h else set_prop a k v h)"

subsection \<open>\<open>class Store\<close>\<close>

text \<open>An action \<open>{ slice, type, payload }\<close>; a reducer is a pure function of the slice's
  value and the action; a listener is a callback, known by its identity.\<close>

record action =
  slice :: string
  type :: string
  payload :: jsval

type_synonym reducer = "jsval \<Rightarrow> action \<Rightarrow> jsval"

type_synonym listener = nat

text \<open>The fields of \<open>class Store\<close>.  \<open>state\<close> is \<open>null\<close> or a reference to the state
  object, \<open>reducers\<close> is \<open>null\<close> or the reducer table, \<open>listeners\<close> holds the own
  properties of the listener table.\<close>

record Store =
  state :: "addr option"
  reducers :: "(string \<rightharpoonup> reducer) option"
  listeners :: "string \<rightharpoonup> listener list"
  isConfigured :: bool

text \<open>What a run leaves behind outside the store: the lines written by \<open>console.log\<close>
  and the calls of listeners, in the order they happened.\<close>

datatype event = ConsoleLog string string jsval | Called listener

record world =
  heap :: heap
  store :: Store
  console :: "event list"

datatype error =
    ConfigurationError    \<comment> \<open>"Initial state and reducers must be provided."\<close>
  | NotConfiguredError    \<comment> \<open>"Store is not configured. Call configure() before using other methods."\<close>
  | UnknownSliceError string  \<comment> \<open>"Reducer for slice ... not found."\<close>
  | TypeError             \<comment> \<open>a property read on \<open>null\<close> or \<open>undefined\<close>, or a call of something that is no function\<close>
  | ListenerError         \<comment> \<open>whatever a listener throws\<close>
  | NetworkError          \<comment> \<open>a rejected \<open>fetch\<close> or an unreadable response\<close>
  | ConfigLoadError       \<comment> \<open>"Error loading configuration."\<close>
  | ComponentNotConfiguredError string  \<comment> \<open>"Component configuration not found for ..."\<close>
  | FetchError            \<comment> \<open>"Error fetching template or styles."\<close>
  | ModuleError string    \<comment> \<open>a rejected dynamic \<open>import\<close> of the given path\<close>
  | RenderError           \<comment> \<open>"Error fetching, parsing, or rendering template or styles."\<close>
  | InvalidPath string    \<comment> \<open>only logged: "Invalid Path: ..."\<close>

text \<open>
  The code that the store calls but does not contain is a parameter:
  \<^item> \<open>body l w\<close>: what the callback \<open>l\<close> does when it is called in the world \<open>w\<close>: it
    returns or throws, and it may have changed the world, for instance by calling the
    store again;
  \<^item> \<open>builtin n v act\<close>: what the inherited function \<open>n\<close> of the reducer table returns or
    throws when it is called with a slice value and an action, as a reducer would be.
\<close>

record runtime =
  body :: "listener \<Rightarrow> world \<Rightarrow> (error + unit) \<times> world"
  builtin :: "string \<Rightarrow> jsval \<Rightarrow> action \<Rightarrow> error + jsval"

definition new_Store :: Store where
  "new_Store = \<lparr>state = None, reducers = None, listeners = Map.empty, isConfigured = False\<rparr>"

definition checkConfigured :: "Store \<Rightarrow> error + unit" where
  "checkConfigured s = (if \<not> isConfigured s then Inl NotConfiguredError else Inr ())"

definition configure ::
  "addr option \<Rightarrow> (string \<rightharpoonup> reducer) option \<Rightarrow> world \<Rightarrow> (error + unit) \<times> world" where
  "configure initialState rs w =
     (if initialState = None \<or> rs = None then (Inl ConfigurationError, w)
      else (Inr (),
            w\<lparr>store := (store w)\<lparr>state := initialState, reducers := rs,
                                   isConfigured := True\<rparr>\<rparr>))"

text \<open>\<open>getState(slice)\<close>: the test \<open>slice ? ... : ...\<close> takes the second branch when the
  argument is missing and also when it is the empty string.\<close>

definition getState :: "string option \<Rightarrow> world \<Rightarrow> (error + jsval) \<times> world" where
  "getState sl w =
     (case checkConfigured (store w) of
        Inl e \<Rightarrow> (Inl e, w)
      | Inr _ \<Rightarrow>
          (case state (store w) of
             None \<Rightarrow> (if sl = None \<or> sl = Some [] then (Inr Null, w) else (Inl TypeError, w))
           | Some a \<Rightarrow>
               (case sl of
                  None \<Rightarrow> (Inr (Ref a), w)
                | Some k \<Rightarrow> (if k = [] then (Inr (Ref a), w)
                             else (Inr (read_prop (heap w) a k), w)))))"

text \<open>The call \<open>this.reducers[slice](value, action)\<close>, for what the property read
  found: a reducer of the table, an inherited function, or the prototype, which cannot be
  called.\<close>

definition call_reducer :: "runtime \<Rightarrow> reducer lookup \<Rightarrow> jsval \<Rightarrow> action \<Rightarrow> error + jsval" where
  "call_reducer rt found v act =
     (case found of
        Own r \<Rightarrow> Inr (r v act)
      | Inherited (Builtin n) \<Rightarrow> builtin rt n v act
      | _ \<Rightarrow> Inl TypeError)"

text \<open>\<open>array.forEach((listener) => listener())\<close>: the elements present at the start are
  visited in order, whatever the callbacks do to the table; a callback that throws ends
  the loop.\<close>

fun forEach :: "runtime \<Rightarrow> listener list \<Rightarrow> world \<Rightarrow> (error + unit) \<times> world" where
  "forEach rt [] w = (Inr (), w)"
| "forEach rt (l # ls) w =
     (case body rt l (w\<lparr>console := console w @ [Called l]\<rparr>) of
        (Inl e, w') \<Rightarrow> (Inl e, w')
      | (Inr _, w') \<Rightarrow> forEach rt ls w')"

text \<open>The last statement of \<open>dispatch\<close>.  An inherited value is truthy and has no
  \<open>forEach\<close>.\<close>

definition notify :: "runtime \<Rightarrow> string \<Rightarrow> world \<Rightarrow> (error + unit) \<times> world" where
  "notify rt k w =
     (case lookup (listeners (store w)) k of
        Missing \<Rightarrow> (Inr (), w)
      | Own ls \<Rightarrow> forEach rt ls w
      | Inherited v \<Rightarrow> (Inl TypeError, w))"

definition dispatch :: "runtime \<Rightarrow> action \<Rightarrow> world \<Rightarrow> (error + unit) \<times> world" where
  "dispatch rt act w =
     (case checkConfigured (store w) of
        Inl e \<Rightarrow> (Inl e, w)
      | Inr _ \<Rightarrow>
          (case reducers (store w) of
             None \<Rightarrow> (Inl TypeError, w)
           | Some rs \<Rightarrow>
               (case lookup rs (slice act) of
                  Missing \<Rightarrow> (Inl (UnknownSliceError (slice act)), w)
                | found \<Rightarrow>
                    (case state (store w) of
                       None \<Rightarrow> (Inl TypeError, w)
                     | Some a \<Rightarrow>
                         (case call_reducer rt found (read_prop (heap w) a (slice act)) act of
                            Inl e \<Rightarrow> (Inl e, w)
                          | Inr v \<Rightarrow>
                              (let h = assign_prop a (slice act) v (heap w);
                                   w1 = w\<lparr>heap := h\<rparr>;
                                   w2 = w1\<lparr>console := console w1 @
                                          [ConsoleLog (slice act) (type act)
                                             (read_prop h a (slice act))]\<rparr>
                               in notify rt (slice act) w2))))))"

text \<open>\<open>subscribe\<close> returns a closure over \<open>slice\<close> and \<open>listener\<close>; the model returns
  the pair, and \<open>unsubscribe\<close> is the body of the closure.  An inherited value passes the
  test \<open>!this.listeners[slice]\<close> and has neither \<open>push\<close> nor \<open>filter\<close>.\<close>

definition subscribe ::
  "string \<Rightarrow> listener \<Rightarrow> world \<Rightarrow> (error + string \<times> listener) \<times> world" where
  "subscribe k l w =
     (case checkConfigured (store w) of
        Inl e \<Rightarrow> (Inl e, w)
      | Inr _ \<Rightarrow>
          (case lookup (listeners (store w)) k of
             Inherited v \<Rightarrow> (Inl TypeError, w)
           | Own ls \<Rightarrow>
               (Inr (k, l),
                w\<lparr>store := (store w)\<lparr>listeners := (listeners (store w))(k \<mapsto> ls @ [l])\<rparr>\<rparr>)
           | Missing \<Rightarrow>
               (Inr (k, l),
                w\<lparr>store := (store w)\<lparr>listeners := (listeners (store w))(k \<mapsto> [] @ [l])\<rparr>\<rparr>)))"

definition unsubscribe :: "string \<times> listener \<Rightarrow> world \<Rightarrow> (error + unit) \<times> world" where
  "unsubscribe cap w =
     (case lookup (listeners (store w)) (fst cap) of
        Own ls \<Rightarrow>
          (Inr (),
           w\<lparr>store := (store w)\<lparr>listeners :=
                (listeners (store w))(fst cap \<mapsto> filter (\<lambda>l. l \<noteq> snd cap) ls)\<rparr>\<rparr>)
      | _ \<Rightarrow> (Inl TypeError, w))"

subsection \<open>Callers of the store\<close>



text \<open>The own registrations of a slice (none when the slice has no list), and the
  listener calls recorded on the console, in order.\<close>

definition listeners_of :: "world \<Rightarrow> string \<Rightarrow> listener list" where
  "listeners_of w k = (case listeners (store w) k of None \<Rightarrow> [] | Some xs \<Rightarrow> xs)"




subsection \<open>Examples\<close>

text \<open>
  The reducer of the README, \<open>(state, action) => action.type === 'SET' ? action.payload : state\<close>
  up to the name of the action type, over the initial state \<open>{count: 0}\<close>, which the page
  holds at address 1.  Address 2 holds an object whose only key is the empty string.
\<close>

definition payload_reducer :: reducer where
  "payload_reducer s a = (if type a = ''SET'' then payload a else s)"


definition page_load :: world where
  "page_load = \<lparr>heap = (\<lambda>_. Map.empty)(1 := [''count'' \<mapsto> JNum 0], 2 := [[] \<mapsto> JNum 0]),
                 store = new_Store, console = []\<rparr>"

definition counter_store :: world where
  "counter_store = snd (configure (Some 1) (Some [''count'' \<mapsto> payload_reducer]) page_load)"




section \<open>Jamo: components and routing (src/Component.js)\<close>

subsection \<open>The DOM\<close>

text \<open>
  A DOM node is an element (tag, attributes, children) or a text node, which also stands
  for the other nodes that are not elements.  A node inside a tree is addressed by its
  path: the child indices from the root down.
\<close>

datatype node = Element string "(string \<times> string) list" "node list" | TextNode string

text \<open>\<open>element.querySelectorAll("[data-component]")\<close>: the descendants of the element
  (not the element itself) that carry the attribute, in document order, each with its
  path and with \<open>dataset.component\<close>, the value of the attribute.\<close>

fun placeholders :: "node \<Rightarrow> (nat list \<times> string) list"
  and placeholders_from :: "nat \<Rightarrow> node list \<Rightarrow> (nat list \<times> string) list" where
  "placeholders (TextNode s) = []"
| "placeholders (Element t as cs) = placeholders_from 0 cs"
| "placeholders_from i [] = []"
| "placeholders_from i (c # cs) =
     (case c of
        Element t as ds \<Rightarrow>
          (case map_of as ''data-component'' of None \<Rightarrow> [] | Some v \<Rightarrow> [([i], v)])
      | TextNode s \<Rightarrow> [])
     @ map (\<lambda>(p, v). (i # p, v)) (placeholders c)
     @ placeholders_from (Suc i) cs"

text \<open>\<open>placeholder.replaceWith(new)\<close> for the node at path \<open>p\<close>, and the node found at
  a path.\<close>

fun replace_at :: "nat list \<Rightarrow> node \<Rightarrow> node \<Rightarrow> node"
  and replace_in :: "nat \<Rightarrow> nat list \<Rightarrow> node \<Rightarrow> node list \<Rightarrow> node list" where
  "replace_at [] new n = new"
| "replace_at (i # p) new (Element t as cs) = Element t as (replace_in i p new cs)"
| "replace_at (i # p) new (TextNode s) = TextNode s"
| "replace_in i p new [] = []"
| "replace_in 0 p new (c # cs) = replace_at p new c # cs"
| "replace_in (Suc i) p new (c # cs) = c # replace_in i p new cs"

fun get_at :: "nat list \<Rightarrow> node \<Rightarrow> node option"
  and get_in :: "nat \<Rightarrow> nat list \<Rightarrow> node list \<Rightarrow> node option" where
  "get_at [] n = Some n"
| "get_at (i # p) (Element t as cs) = get_in i p cs"
| "get_at (i # p) (TextNode s) = None"
| "get_in i p [] = None"
| "get_in 0 p (c # cs) = get_at p c"
| "get_in (Suc i) p (c # cs) = get_in i p cs"

text \<open>The \<open>id\<close> attributes that occur in a tree.\<close>

fun node_ids :: "node \<Rightarrow> string list" and nodes_ids :: "node list \<Rightarrow> string list" where
  "node_ids (TextNode s) = []"
| "node_ids (Element t as cs) =
     (case map_of as ''id'' of None \<Rightarrow> [] | Some v \<Rightarrow> [v]) @ nodes_ids cs"
| "nodes_ids [] = []"
| "nodes_ids (c # cs) = node_ids c @ nodes_ids cs"

subsection \<open>The browser and the server\<close>

text \<open>
  What a render does to the outside is recorded in order: the requests it starts
  (\<open>fetch\<close>, dynamic \<open>import\<close>), the errors it reports with \<open>console.error\<close>, and the
  calls of the \<open>initialize\<close> hook of a component class.
\<close>

datatype cevent = Fetch string | Import string | ConsoleError error | Initialize string

text \<open>
  The collaborators that are not part of the repository are parameters:
  \<^item> \<open>load_json url\<close>: the JSON document behind \<open>url\<close>, or \<open>None\<close> when the fetch or
    the parse fails;
  \<^item> \<open>fetch url\<close>: the text of the response, or \<open>None\<close> when the fetch rejects;
  \<^item> \<open>first_child_of_html s\<close>: the first child of a \<open>div\<close> whose \<open>innerHTML\<close> is set to
    \<open>s.trim()\<close>, or \<open>None\<close> when there is no child;
  \<^item> \<open>import_module path\<close>: the name of the class that the module at \<open>path\<close> exports by
    default, or \<open>None\<close> when the import rejects;
  \<^item> \<open>page_ids\<close>: the ids of the elements of the host page outside the root element;
  \<^item> \<open>native_text n\<close>: the text that the engine gives for the inherited function \<open>n\<close>
    when it is turned into a string.
\<close>

text \<open>A configuration document: a falsy value (\<open>null\<close>, \<open>0\<close>, \<open>false\<close>, \<open>""\<close>), a truthy
  value without a \<open>componentDirectory\<close>, or an object whose \<open>componentDirectory\<close> is an
  object with strings as values, given by its own properties.\<close>

datatype config_doc = Falsy | NoDirectory | Directory "string \<rightharpoonup> string"

record env =
  load_json :: "string \<Rightarrow> config_doc option"
  fetch :: "string \<Rightarrow> string option"
  first_child_of_html :: "string \<Rightarrow> node option"
  import_module :: "string \<Rightarrow> string option"
  page_ids :: "string list"
  native_text :: "string \<Rightarrow> string"

text \<open>
  The state shared by all components and the router: the static \<open>Component.config\<close>
  (\<open>null\<close>, or the document that was loaded), the \<open>style\<close> elements
  appended to \<open>document.head\<close> (id and text), the children of the root element, the
  fragment of the current location, and the record of events.
\<close>

record browser =
  config :: "config_doc option"
  head :: "(string \<times> string) list"
  mounted :: "node list"
  location_hash :: string
  trace :: "cevent list"

definition logged :: "cevent list \<Rightarrow> browser \<Rightarrow> browser" where
  "logged es b = b\<lparr>trace := trace b @ es\<rparr>"

subsection \<open>\<open>class Component\<close>\<close>

text \<open>
  A component is known by the name of its class (\<open>this.constructor.name\<close>).  The fields
  of an instance (\<open>directoryPath\<close>, \<open>templatePath\<close>, \<open>stylesPath\<close>, \<open>template\<close>,
  \<open>styles\<close>, \<open>element\<close>) are written before they are read in every render, so the
  model passes them on as values.  The \<open>initialize\<close> hook is the subclass's code; the
  model records the call.
\<close>

text \<open>\<open>!Component.config\<close>.\<close>

definition no_config :: "browser \<Rightarrow> bool" where
  "no_config b = (case config b of None \<Rightarrow> True | Some Falsy \<Rightarrow> True | Some _ \<Rightarrow> False)"

definition loadConfig :: "env \<Rightarrow> browser \<Rightarrow> (error + unit) \<times> browser" where
  "loadConfig env b =
     (if no_config b then
        (let b1 = logged [Fetch ''./JamoComponentsConfig.json''] b
         in case load_json env ''./JamoComponentsConfig.json'' of
              None \<Rightarrow> (Inl ConfigLoadError, logged [ConsoleError NetworkError] b1)
            | Some d \<Rightarrow> (Inr (), b1\<lparr>config := Some d\<rparr>))
      else (Inr (), b))"

text \<open>\<open>Component.config.componentDirectory[name]\<close>: a TypeError without a configuration
  or without a directory; otherwise the property read on the directory.\<close>

definition directory_entry :: "browser \<Rightarrow> string \<Rightarrow> error + string lookup" where
  "directory_entry b name =
     (case config b of
        Some (Directory dir) \<Rightarrow> Inr (lookup dir name)
      | _ \<Rightarrow> Inl TypeError)"

text \<open>What string concatenation makes of a directory entry: the entry itself, the text
  \<open>undefined\<close>, the source text of an inherited function, or \<open>[object Object]\<close> for the
  prototype.\<close>

definition js_string :: "env \<Rightarrow> string lookup \<Rightarrow> string" where
  "js_string env found =
     (case found of
        Own s \<Rightarrow> s
      | Missing \<Rightarrow> ''undefined''
      | Inherited (Builtin n) \<Rightarrow> native_text env n
      | Inherited _ \<Rightarrow> ''[object Object]'')"

text \<open>\<open>#setPaths\<close> returns the template path and the styles path.  \<open>!this.directoryPath\<close>
  holds for a missing entry and for the empty string, not for an inherited value.\<close>

definition setPaths :: "env \<Rightarrow> string \<Rightarrow> browser \<Rightarrow> (error + string \<times> string) \<times> browser" where
  "setPaths env name b =
     (case (if no_config b then loadConfig env b else (Inr (), b)) of
        (Inl e, b1) \<Rightarrow> (Inl e, b1)
      | (Inr _, b1) \<Rightarrow>
          (case directory_entry b1 name of
             Inl e \<Rightarrow> (Inl e, b1)
           | Inr found \<Rightarrow>
               (if found = Missing \<or> found = Own [] then
                  (Inl (ComponentNotConfiguredError name), b1)
                else (Inr (js_string env found @ name @ ''.html'',
                           js_string env found @ name @ ''.css''), b1))))"

text \<open>\<open>#fetchTemplateAndStyles\<close>: both requests are started before either is awaited
  (\<open>Promise.all\<close>); the styles path is never empty here, so \<open>this.stylesPath || ""\<close> is
  the styles path.\<close>

definition fetchTemplateAndStyles ::
  "env \<Rightarrow> string \<times> string \<Rightarrow> browser \<Rightarrow> (error + string \<times> string) \<times> browser" where
  "fetchTemplateAndStyles env paths b =
     (let b1 = logged [Fetch (fst paths), Fetch (snd paths)] b
      in case fetch env (fst paths) of
           None \<Rightarrow> (Inl FetchError, logged [ConsoleError NetworkError] b1)
         | Some t \<Rightarrow>
             (case fetch env (snd paths) of
                None \<Rightarrow> (Inl FetchError, logged [ConsoleError NetworkError] b1)
              | Some s \<Rightarrow> (Inr (t, s), b1)))"

definition parseHTML :: "env \<Rightarrow> string \<Rightarrow> node option" where
  "parseHTML env htmlString = first_child_of_html env htmlString"

text \<open>\<open>document.getElementById(i) !== null\<close>: the document consists of the host page, the
  styles in the head and what is mounted under the root element.  A tree under
  construction is not part of the document.\<close>

definition getElementById :: "env \<Rightarrow> browser \<Rightarrow> string \<Rightarrow> bool" where
  "getElementById env b i =
     (i \<in> set (page_ids env) \<or> i \<in> set (map fst (head b)) \<or> i \<in> set (nodes_ids (mounted b)))"

definition applyStyles :: "env \<Rightarrow> string \<Rightarrow> string \<Rightarrow> browser \<Rightarrow> browser" where
  "applyStyles env name cssString b =
     (let styleId = name @ ''-styles''
      in if \<not> getElementById env b styleId then b\<lparr>head := head b @ [(styleId, cssString)]\<rparr>
         else b)"

text \<open>The module path of a placeholder, \<open>"/" + directoryPath + componentName + ".js"\<close>,
  where the directory entry is read without a check.\<close>

definition module_path :: "env \<Rightarrow> browser \<Rightarrow> string \<Rightarrow> error + string" where
  "module_path env b componentName =
     (case directory_entry b componentName of
        Inl e \<Rightarrow> Inl e
      | Inr found \<Rightarrow> Inr (''/'' @ js_string env found @ componentName @ ''.js''))"

text \<open>The \<open>catch\<close> of \<open>#setup\<close>: the error is logged and a new error is thrown in its
  place.\<close>

definition caught :: "error \<Rightarrow> browser \<Rightarrow> (error + node) \<times> browser" where
  "caught e b = (Inl RenderError, logged [ConsoleError e] b)"

text \<open>The first four statements of the \<open>try\<close> block of \<open>#setup\<close>: paths, fetch, parse,
  styles.  The result is \<open>this.element\<close>, which is \<open>null\<close> for a template without
  nodes.\<close>

definition prepare :: "env \<Rightarrow> string \<Rightarrow> browser \<Rightarrow> (error + node option) \<times> browser" where
  "prepare env name b =
     (case setPaths env name b of
        (Inl e, b1) \<Rightarrow> (Inl e, b1)
      | (Inr paths, b1) \<Rightarrow>
          (case fetchTemplateAndStyles env paths b1 of
             (Inl e, b2) \<Rightarrow> (Inl e, b2)
           | (Inr (template, styles), b2) \<Rightarrow>
               (Inr (parseHTML env template), applyStyles env name styles b2)))"

text \<open>
  \<open>#setup\<close>, \<open>#renderNestedComponents\<close> and \<open>render\<close> call each other, and a template may
  name its own component, so a render need not end.  The first argument bounds the depth
  of nesting; \<open>None\<close> says that the bound was too small.

  In \<open>#renderNestedComponents\<close> the list of placeholders is computed once, before the
  loop.  A placeholder that lies inside an earlier, already replaced placeholder is still
  resolved, but it is no longer part of the tree, so replacing it leaves the tree as it
  is; \<open>replaced\<close> holds the paths replaced so far.  A \<open>querySelectorAll\<close> on \<open>null\<close> or
  on a text node is a TypeError.
\<close>

fun setup_component :: "nat \<Rightarrow> env \<Rightarrow> string \<Rightarrow> browser \<Rightarrow> ((error + node) \<times> browser) option"
  and renderNestedComponents ::
    "nat \<Rightarrow> env \<Rightarrow> (nat list \<times> string) list \<Rightarrow> nat list list \<Rightarrow> node \<Rightarrow> browser \<Rightarrow>
       ((error + node) \<times> browser) option"
  and render :: "nat \<Rightarrow> env \<Rightarrow> string \<Rightarrow> browser \<Rightarrow> ((error + node) \<times> browser) option" where
  "setup_component 0 env name b = None"
| "setup_component (Suc n) env name b =
     (case prepare env name b of
        (Inl e, b1) \<Rightarrow> Some (caught e b1)
      | (Inr None, b1) \<Rightarrow> Some (caught TypeError b1)
      | (Inr (Some (TextNode s)), b1) \<Rightarrow> Some (caught TypeError b1)
      | (Inr (Some (Element t as cs)), b1) \<Rightarrow>
          (case renderNestedComponents n env (placeholders (Element t as cs)) []
                  (Element t as cs) b1 of
             None \<Rightarrow> None
           | Some (Inl e, b2) \<Rightarrow> Some (caught e b2)
           | Some (Inr el, b2) \<Rightarrow> Some (Inr el, b2)))"
| "renderNestedComponents n env [] replaced el b = Some (Inr el, b)"
| "renderNestedComponents n env ((p, componentName) # ps) replaced el b =
     (if componentName = [] then renderNestedComponents n env ps replaced el b
      else
        (case module_path env b componentName of
           Inl e \<Rightarrow> Some (Inl e, b)
         | Inr path \<Rightarrow>
             (case import_module env path of
                None \<Rightarrow> Some (Inl (ModuleError path), logged [Import path] b)
              | Some cls \<Rightarrow>
                  (case render n env cls (logged [Import path] b) of
                     None \<Rightarrow> None
                   | Some (Inl e, b2) \<Rightarrow> Some (Inl e, b2)
                   | Some (Inr nestedElement, b2) \<Rightarrow>
                       renderNestedComponents n env ps (p # replaced)
                         (if \<exists>q \<in> set replaced. prefix q p then el
                          else replace_at p nestedElement el) b2))))"
| "render n env name b =
     (case setup_component n env name b of
        None \<Rightarrow> None
      | Some (Inl e, b1) \<Rightarrow> Some (Inl e, b1)
      | Some (Inr el, b1) \<Rightarrow> Some (Inr el, logged [Initialize name] b1))"

text \<open>The body of the loop for one placeholder, up to the element it obtains: the import
  of the child's module and the render of a new instance (lines 135 to 142).\<close>

definition resolve :: "nat \<Rightarrow> env \<Rightarrow> string \<Rightarrow> browser \<Rightarrow> ((error + node) \<times> browser) option" where
  "resolve n env componentName b =
     (case module_path env b componentName of
        Inl e \<Rightarrow> Some (Inl e, b)
      | Inr path \<Rightarrow>
          (case import_module env path of
             None \<Rightarrow> Some (Inl (ModuleError path), logged [Import path] b)
           | Some cls \<Rightarrow> render n env cls (logged [Import path] b)))"

subsection \<open>\<open>class App\<close>\<close>

text \<open>
  The route table maps a key to a component instance, given by the name of its class.
  \<open>loadPage\<close> is asynchronous: its error is a rejected promise, which \<open>handleRouting\<close>
  neither awaits nor catches, so \<open>handleRouting\<close> itself never throws.  The model runs
  the page load to its end and reports how the promise settled.
\<close>

record App =
  routes :: "string \<rightharpoonup> string"

definition addRoute :: "string \<Rightarrow> string \<Rightarrow> App \<Rightarrow> App" where
  "addRoute path component app = app\<lparr>routes := (routes app)(path \<mapsto> component)\<rparr>"

definition loadPage :: "nat \<Rightarrow> env \<Rightarrow> string \<Rightarrow> browser \<Rightarrow> ((error + unit) \<times> browser) option" where
  "loadPage n env component b =
     (case render n env component (b\<lparr>mounted := []\<rparr>) of
        None \<Rightarrow> None
      | Some (Inl e, b1) \<Rightarrow> Some (Inl e, b1)
      | Some (Inr el, b1) \<Rightarrow> Some (Inr (), b1\<lparr>mounted := mounted b1 @ [el]\<rparr>))"

definition handleRouting :: "nat \<Rightarrow> env \<Rightarrow> App \<Rightarrow> browser \<Rightarrow> ((error + unit) \<times> browser) option" where
  "handleRouting n env app b =
     (case routes app (location_hash b) of
        None \<Rightarrow> Some (Inr (), logged [ConsoleError (InvalidPath (location_hash b))] b)
      | Some page \<Rightarrow> loadPage n env page b)"

subsection \<open>Notions used in the statements\<close>

text \<open>A caller that renders a list of components one after the other, whatever the
  outcome of each render.\<close>

fun renders :: "nat \<Rightarrow> env \<Rightarrow> string list \<Rightarrow> browser \<Rightarrow> browser option" where
  "renders n env [] b = Some b"
| "renders n env (c # cs) b =
     (case render n env c b of None \<Rightarrow> None | Some (r, b1) \<Rightarrow> renders n env cs b1)"

text \<open>\<open>extends b b'\<close>: from \<open>b\<close> to \<open>b'\<close> events and styles were only appended, the
  mounted content and the location are the same, a loaded configuration stayed as it
  was, and style ids that were distinct are still distinct.\<close>

definition extends :: "browser \<Rightarrow> browser \<Rightarrow> bool" where
  "extends b b' =
     (mounted b' = mounted b \<and> location_hash b' = location_hash b \<and>
      prefix (trace b) (trace b') \<and> prefix (head b) (head b') \<and>
      (distinct (map fst (head b)) \<longrightarrow> distinct (map fst (head b'))) \<and>
      (\<not> no_config b \<longrightarrow> config b' = config b))"

text \<open>How many \<open>style\<close> elements in the head carry the id of a component type.\<close>

definition style_count :: "browser \<Rightarrow> string \<Rightarrow> nat" where
  "style_count b name = length (filter (\<lambda>s. fst s = name @ ''-styles'') (head b))"

text \<open>Document order on paths is the order of a depth-first traversal: a node comes
  before its descendants, and among the children of one node everything under an earlier
  child comes before everything under a later one.\<close>

fun precedes :: "nat list \<Rightarrow> nat list \<Rightarrow> bool" where
  "precedes [] [] = False"
| "precedes [] (j # q) = True"
| "precedes (i # p) [] = False"
| "precedes (i # p) (j # q) = (i < j \<or> (i = j \<and> precedes p q))"

subsection \<open>A small site\<close>

text \<open>
  The configured components: \<open>Page\<close>, whose template holds two placeholders for
  \<open>Card\<close>; \<open>Card\<close>, a paragraph, and \<open>Badge\<close>, a span; \<open>Board\<close>, whose template holds
  placeholders for \<open>Badge\<close>, \<open>Card\<close> and \<open>Card\<close> again; \<open>Broken\<close>, whose template holds
  a placeholder for \<open>Ghost\<close>, a component the configuration does not list and the server
  does not have; and \<open>Nest\<close>, whose template holds a placeholder for \<open>Wrap\<close> with two
  placeholders for \<open>Card\<close> inside it.
\<close>

definition site_directory :: "string \<rightharpoonup> string" where
  "site_directory =
     map_of [(''Page'', ''pages/''), (''Card'', ''cards/''), (''Broken'', ''broken/''),
             (''Badge'', ''badges/''), (''Board'', ''boards/''), (''Nest'', ''nest/''),
             (''Wrap'', ''wrap/'')]"

definition card_element :: node where
  "card_element = Element ''p'' [] [TextNode ''hi'']"

definition badge_element :: node where
  "badge_element = Element ''span'' [] [TextNode ''new'']"

definition wrap_element :: node where
  "wrap_element = Element ''section'' [] []"

definition page_template :: node where
  "page_template =
     Element ''div'' []
       [Element ''i'' [(''data-component'', ''Card'')] [],
        Element ''i'' [(''data-component'', ''Card'')] []]"

definition page_rendered :: node where
  "page_rendered = Element ''div'' [] [card_element, card_element]"

definition board_template :: node where
  "board_template =
     Element ''div'' []
       [Element ''b'' [(''data-component'', ''Badge'')] [],
        Element ''i'' [(''data-component'', ''Card'')] [],
        Element ''i'' [(''data-component'', ''Card'')] []]"

definition board_rendered :: node where
  "board_rendered = Element ''div'' [] [badge_element, card_element, card_element]"

definition broken_template :: node where
  "broken_template = Element ''div'' [] [Element ''i'' [(''data-component'', ''Ghost'')] []]"

definition nest_template :: node where
  "nest_template =
     Element ''div'' []
       [Element ''s'' [(''data-component'', ''Wrap'')]
          [Element ''i'' [(''data-component'', ''Card'')] [],
           Element ''i'' [(''data-component'', ''Card'')] []]]"

definition nest_rendered :: node where
  "nest_rendered = Element ''div'' [] [wrap_element]"

definition site :: env where
  "site =
     \<lparr>load_json = map_of [(''./JamoComponentsConfig.json'', Directory site_directory)],
      fetch = map_of
        [(''pages/Page.html'', ''<div><i data-component=Card></i><i data-component=Card></i></div>''),
         (''pages/Page.css'', ''div{margin:0}''),
         (''cards/Card.html'', ''<p>hi</p>''),
         (''cards/Card.css'', ''p{color:red}''),
         (''broken/Broken.html'', ''<div><i data-component=Ghost></i></div>''),
         (''broken/Broken.css'', []),
         (''badges/Badge.html'', ''<span>new</span>''),
         (''badges/Badge.css'', ''span{top:0}''),
         (''boards/Board.html'',
          ''<div><b data-component=Badge></b><i data-component=Card></i><i data-component=Card></i></div>''),
         (''boards/Board.css'', []),
         (''nest/Nest.html'',
          ''<div><s data-component=Wrap><i data-component=Card></i><i data-component=Card></i></s></div>''),
         (''nest/Nest.css'', []),
         (''wrap/Wrap.html'', ''<section></section>''),
         (''wrap/Wrap.css'', [])],
      first_child_of_html = map_of
        [(''<div><i data-component=Card></i><i data-component=Card></i></div>'', page_template),
         (''<p>hi</p>'', card_element),
         (''<div><i data-component=Ghost></i></div>'', broken_template),
         (''<span>new</span>'', badge_element),
         (''<div><b data-component=Badge></b><i data-component=Card></i><i data-component=Card></i></div>'',
          board_template),
         (''<div><s data-component=Wrap><i data-component=Card></i><i data-component=Card></i></s></div>'',
          nest_template),
         (''<section></section>'', wrap_element)],
      import_module = map_of
        [(''/cards/Card.js'', ''Card''), (''/badges/Badge.js'', ''Badge''),
         (''/wrap/Wrap.js'', ''Wrap'')],
      page_ids = [''root''],
      native_text = (\<lambda>n. ''function '' @ (if n = ''constructor'' then ''Object'' else n) @
                         ''() { [native code] }'')\<rparr>"

text \<open>The same site on a host page that has an element with the id \<open>Card-styles\<close>.\<close>

definition clash_site :: env where
  "clash_site = site\<lparr>page_ids := [''root'', ''Card-styles'']\<rparr>"

text \<open>The browser before anything was rendered; after the first four statements of the
  render of \<open>Page\<close>; after its two placeholders were resolved; and after the render.\<close>

definition fresh_page :: browser where
  "fresh_page = \<lparr>config = None, head = [], mounted = [], location_hash = [], trace = []\<rparr>"

definition page_prepared :: browser where
  "page_prepared =
     \<lparr>config = Some (Directory site_directory),
      head = [(''Page-styles'', ''div{margin:0}'')], mounted = [], location_hash = [],
      trace = [Fetch ''./JamoComponentsConfig.json'', Fetch ''pages/Page.html'',
               Fetch ''pages/Page.css'']\<rparr>"

definition card_events :: "cevent list" where
  "card_events =
     [Import ''/cards/Card.js'', Fetch ''cards/Card.html'', Fetch ''cards/Card.css'',
      Initialize ''Card'']"

definition page_nested :: browser where
  "page_nested =
     page_prepared\<lparr>head := [(''Page-styles'', ''div{margin:0}''), (''Card-styles'', ''p{color:red}'')],
       trace := trace page_prepared @ card_events @ card_events\<rparr>"

definition page_final :: browser where
  "page_final = page_nested\<lparr>trace := trace page_nested @ [Initialize ''Page'']\<rparr>"

text \<open>The same when \<open>Card\<close> was rendered on its own before \<open>Page\<close>: after the render
  of \<open>Card\<close>, after the first four statements of the render of \<open>Page\<close>, and after
  the render of \<open>Page\<close>.\<close>

definition card_first :: browser where
  "card_first =
     \<lparr>config = Some (Directory site_directory), head = [(''Card-styles'', ''p{color:red}'')],
      mounted = [], location_hash = [],
      trace = [Fetch ''./JamoComponentsConfig.json'', Fetch ''cards/Card.html'',
               Fetch ''cards/Card.css'', Initialize ''Card'']\<rparr>"

definition page_second_prepared :: browser where
  "page_second_prepared =
     card_first\<lparr>head := [(''Card-styles'', ''p{color:red}''), (''Page-styles'', ''div{margin:0}'')],
       trace := trace card_first @ [Fetch ''pages/Page.html'', Fetch ''pages/Page.css'']\<rparr>"

definition page_second :: browser where
  "page_second =
     page_second_prepared\<lparr>trace := trace page_second_prepared @ card_events @ card_events @
        [Initialize ''Page'']\<rparr>"

text \<open>The render of \<open>Board\<close>: the browser after the first four statements, the events of
  the resolution of a \<open>Badge\<close> placeholder, and the browser after the first, the second
  and the third placeholder and after the render.\<close>

definition board_prepared :: browser where
  "board_prepared =
     \<lparr>config = Some (Directory site_directory),
      head = [(''Board-styles'', [])], mounted = [], location_hash = [],
      trace = [Fetch ''./JamoComponentsConfig.json'', Fetch ''boards/Board.html'',
               Fetch ''boards/Board.css'']\<rparr>"

definition badge_events :: "cevent list" where
  "badge_events =
     [Import ''/badges/Badge.js'', Fetch ''badges/Badge.html'', Fetch ''badges/Badge.css'',
      Initialize ''Badge'']"

definition board_first :: browser where
  "board_first =
     board_prepared\<lparr>head := [(''Board-styles'', []), (''Badge-styles'', ''span{top:0}'')],
       trace := trace board_prepared @ badge_events\<rparr>"

definition board_second :: browser where
  "board_second =
     board_first\<lparr>head := [(''Board-styles'', []), (''Badge-styles'', ''span{top:0}''),
                           (''Card-styles'', ''p{color:red}'')],
       trace := trace board_first @ card_events\<rparr>"

definition board_third :: browser where
  "board_third = board_second\<lparr>trace := trace board_second @ card_events\<rparr>"

definition board_final :: browser where
  "board_final = board_third\<lparr>trace := trace board_third @ [Initialize ''Board'']\<rparr>"

text \<open>The render of \<open>Page\<close> on the host page that has an element with the id
  \<open>Card-styles\<close>, and the render of \<open>Nest\<close>.\<close>

definition clash_final :: browser where
  "clash_final = page_final\<lparr>head := [(''Page-styles'', ''div{margin:0}'')]\<rparr>"

definition nest_final :: browser where
  "nest_final =
     \<lparr>config = Some (Directory site_directory),
      head = [(''Nest-styles'', []), (''Wrap-styles'', []), (''Card-styles'', ''p{color:red}'')],
      mounted = [], location_hash = [],
      trace = [Fetch ''./JamoComponentsConfig.json'', Fetch ''nest/Nest.html'',
               Fetch ''nest/Nest.css'',
               Import ''/wrap/Wrap.js'', Fetch ''wrap/Wrap.html'', Fetch ''wrap/Wrap.css'',
               Initialize ''Wrap''] @ card_events @ card_events @ [Initialize ''Nest'']\<rparr>"

text \<open>An application with the single route \<open>#/x\<close>, and a browser that shows some earlier
  content while the location is \<open>#/y\<close>.\<close>

definition app_x :: App where
  "app_x = addRoute ''#/x'' ''Page'' \<lparr>routes = Map.empty\<rparr>"

definition showing_y :: browser where
  "showing_y = \<lparr>config = None, head = [], mounted = [Element ''h1'' [] [TextNode ''old'']],
                 location_hash = ''#/y'', trace = []\<rparr>"

section \<open>The store: dispatch, subscription, configuration\<close>

subsection \<open>Auxiliary facts\<close>

lemma lookup_own: "m k = Some x \<Longrightarrow> lookup m k = Own x"
  by (simp add: lookup_def)

lemma lookup_missing: "m k = None \<Longrightarrow> object_prototype k = None \<Longrightarrow> lookup m k = Missing"
  by (simp add: lookup_def)

lemma lookup_Missing_iff: "lookup m k = Missing \<longleftrightarrow> m k = None \<and> object_prototype k = None"
  by (auto simp: lookup_def split: option.splits)

lemma object_prototype_proto: "object_prototype k = None \<Longrightarrow> k \<noteq> ''__proto__''"
  by (auto simp: object_prototype_def)

lemma read_prop_set_prop: "read_prop (set_prop a k v h) a k = v"
  by (simp add: read_prop_def set_prop_def lookup_def)

lemma counter_store_simps:
  "isConfigured (store counter_store)" "state (store counter_store) = Some 1"
  "reducers (store counter_store) = Some [''count'' \<mapsto> payload_reducer]"
  "listeners (store counter_store) = Map.empty" "console counter_store = []"
  "heap counter_store = heap page_load"
  by (simp_all add: counter_store_def configure_def page_load_def new_Store_def)











lemma subscribe_configured:
  assumes "isConfigured (store w)"
    and "listeners (store w) k \<noteq> None \<or> object_prototype k = None"
  shows "fst (subscribe k l w) = Inr (k, l)"
    and "listeners (store (snd (subscribe k l w))) = (listeners (store w))(k \<mapsto> listeners_of w k @ [l])"
    and "isConfigured (store (snd (subscribe k l w)))"
    and "state (store (snd (subscribe k l w))) = state (store w)"
    and "reducers (store (snd (subscribe k l w))) = reducers (store w)"
    and "heap (snd (subscribe k l w)) = heap w"
    and "console (snd (subscribe k l w)) = console w"
proof -
  have "lookup (listeners (store w)) k = Missing \<and> listeners (store w) k = None \<or>
        (\<exists>ls. lookup (listeners (store w)) k = Own ls \<and> listeners (store w) k = Some ls)"
    using assms(2) by (cases "listeners (store w) k") (auto simp: lookup_own lookup_missing)
  then show "fst (subscribe k l w) = Inr (k, l)"
    and "listeners (store (snd (subscribe k l w))) = (listeners (store w))(k \<mapsto> listeners_of w k @ [l])"
    and "isConfigured (store (snd (subscribe k l w)))"
    and "state (store (snd (subscribe k l w))) = state (store w)"
    and "reducers (store (snd (subscribe k l w))) = reducers (store w)"
    and "heap (snd (subscribe k l w)) = heap w"
    and "console (snd (subscribe k l w)) = console w"
    using assms(1) by (auto simp: subscribe_def checkConfigured_def listeners_of_def)
qed





subsection \<open>State after a sequence of dispatches\<close>






subsection \<open>Listeners\<close>


lemmas listener_defs = subscribe_def unsubscribe_def checkConfigured_def lookup_def
  object_prototype_def inherited_functions_def listeners_of_def



subsection \<open>Failing dispatches\<close>

text \<open>The two failures that \<open>dispatch\<close> checks for are raised before the state is
  written, before the log line and before any listener is called: the world is returned
  as it was.\<close>

lemma dispatch_failure_atomic:
  "(\<not> isConfigured (store w) \<longrightarrow> dispatch rt act w = (Inl NotConfiguredError, w)) \<and>
   (isConfigured (store w) \<and> reducers (store w) = Some rs \<and> lookup rs (slice act) = Missing \<longrightarrow>
      dispatch rt act w = (Inl (UnknownSliceError (slice act)), w))"
  by (simp add: dispatch_def checkConfigured_def)

text \<open>
  C3.  The test \<open>!this.reducers[slice]\<close> also finds what the reducer table inherits
  from \<open>Object.prototype\<close>.  The counter store has no reducer for \<open>toString\<close>, but a
  dispatch to that slice raises no UnknownSliceError: the inherited function is called as
  the reducer, its result, the string \<open>[object Object]\<close>, is written into the state
  object and logged, and then the dispatch raises a TypeError, because the listener table
  inherits the same function, which has no \<open>forEach\<close>.  Before the dispatch
  \<open>getState('toString')\<close> returned the inherited function, afterwards it returns the
  string.
\<close>

theorem inherited_slice_is_dispatched:
  "dispatch (rt\<lparr>builtin := (builtin rt)(''toString'' := (\<lambda>v a. Inr (JStr ''[object Object]'')))\<rparr>)
       \<lparr>slice = ''toString'', type = ''SET'', payload = JNum 1\<rparr> counter_store =
     (Inl TypeError,
      counter_store\<lparr>heap := set_prop 1 ''toString'' (JStr ''[object Object]'') (heap counter_store),
                     console := [ConsoleLog ''toString'' ''SET'' (JStr ''[object Object]'')]\<rparr>) \<and>
   [''count'' \<mapsto> payload_reducer] ''toString'' = None \<and>
   fst (getState (Some ''toString'') counter_store) = Inr (Builtin ''toString'') \<and>
   fst (getState (Some ''toString'')
          (snd (dispatch (rt\<lparr>builtin := (builtin rt)(''toString'' :=
                               (\<lambda>v a. Inr (JStr ''[object Object]'')))\<rparr>)
                  \<lparr>slice = ''toString'', type = ''SET'', payload = JNum 1\<rparr> counter_store))) =
     Inr (JStr ''[object Object]'')"
  by (simp add: counter_store_simps page_load_def dispatch_def checkConfigured_def lookup_def
      object_prototype_def inherited_functions_def call_reducer_def assign_prop_def
      read_prop_def set_prop_def notify_def getState_def Let_def)

subsection \<open>Slices without a reducer\<close>

text \<open>
  C8 (as amended).  Before \<open>configure\<close>, \<open>getState\<close> and \<open>subscribe\<close> raise
  NotConfiguredError and change nothing.  After \<open>configure\<close>, for a non-empty name
  \<open>k\<close> under which the reducer table holds nothing, neither an entry of its own nor a
  member inherited from \<open>Object.prototype\<close>, \<open>getState(k)\<close> raises nothing and returns
  the value stored under \<open>k\<close> in the state object, \<open>undefined\<close> when there is none,
  and \<open>subscribe(k, l)\<close> raises nothing and appends \<open>l\<close> to the list of \<open>k\<close>.
\<close>

theorem unknown_slice_reads_and_subscribes:
  "(\<not> isConfigured (store w) \<longrightarrow>
      getState sl w = (Inl NotConfiguredError, w) \<and> subscribe k l w = (Inl NotConfiguredError, w)) \<and>
   (isConfigured (store w) \<and> state (store w) = Some a \<and> reducers (store w) = Some rs \<and>
    lookup rs k = Missing \<and> k \<noteq> [] \<longrightarrow>
      getState (Some k) w =
        (Inr (case heap w a k of None \<Rightarrow> Undefined | Some v \<Rightarrow> v), w) \<and>
      fst (subscribe k l w) = Inr (k, l) \<and>
      listeners (store (snd (subscribe k l w))) k = Some (listeners_of w k @ [l]))"
proof -
  have 1: "getState sl w = (Inl NotConfiguredError, w) \<and> subscribe k l w = (Inl NotConfiguredError, w)"
    if "\<not> isConfigured (store w)"
    using that by (simp add: getState_def subscribe_def checkConfigured_def)
  have 2: "getState (Some k) w =
        (Inr (case heap w a k of None \<Rightarrow> Undefined | Some v \<Rightarrow> v), w) \<and>
      fst (subscribe k l w) = Inr (k, l) \<and>
      listeners (store (snd (subscribe k l w))) k = Some (listeners_of w k @ [l])"
    if h: "isConfigured (store w)" "state (store w) = Some a" "reducers (store w) = Some rs"
      "lookup rs k = Missing" "k \<noteq> []"
  proof -
    from h(4) have np: "object_prototype k = None" by (simp add: lookup_Missing_iff)
    then have g: "getState (Some k) w =
        (Inr (case heap w a k of None \<Rightarrow> Undefined | Some v \<Rightarrow> v), w)"
      using h(1,2,5)
      by (simp add: getState_def checkConfigured_def read_prop_def lookup_def split: option.splits)
    from subscribe_configured(1,2)[OF h(1), of k l] np g show ?thesis by simp
  qed
  from 1 2 show ?thesis by blast
qed

text \<open>Before and after the counter store is configured, for the name \<open>ghost\<close>.\<close>

theorem unknown_slice_reads_and_subscribes_witness:
  "\<not> isConfigured (store page_load) \<and>
   getState (Some ''ghost'') page_load = (Inl NotConfiguredError, page_load) \<and>
   subscribe ''ghost'' 5 page_load = (Inl NotConfiguredError, page_load) \<and>
   isConfigured (store counter_store) \<and>
   lookup [''count'' \<mapsto> payload_reducer] ''ghost'' = Missing \<and>
   getState (Some ''ghost'') counter_store = (Inr Undefined, counter_store) \<and>
   listeners (store (snd (subscribe ''ghost'' 5 counter_store))) ''ghost'' = Some [5]"
  using unknown_slice_reads_and_subscribes[of page_load "Some ''ghost''" "''ghost''" 5]
    unknown_slice_reads_and_subscribes[of counter_store "Some ''ghost''" "''ghost''" 5 1
      "[''count'' \<mapsto> payload_reducer]"]
  by (simp add: counter_store_simps page_load_def new_Store_def listeners_of_def lookup_def
      object_prototype_def inherited_functions_def)

text \<open>The slice \<open>ghost\<close> has no reducer in the counter store; reading it returns
  \<open>undefined\<close> and subscribing to it registers the listener.  Under the inherited name
  \<open>constructor\<close>, for which the store has no reducer either, \<open>getState\<close> returns the
  inherited function and \<open>subscribe\<close> raises a TypeError.  No UnknownSliceError is
  raised anywhere.\<close>

theorem unknown_slice_counterexample:
  "[''count'' \<mapsto> payload_reducer] ''ghost'' = None \<and>
   fst (getState (Some ''ghost'') counter_store) = Inr Undefined \<and>
   fst (subscribe ''ghost'' 5 counter_store) = Inr (''ghost'', 5) \<and>
   listeners (store (snd (subscribe ''ghost'' 5 counter_store))) ''ghost'' = Some [5] \<and>
   [''count'' \<mapsto> payload_reducer] ''constructor'' = None \<and>
   fst (getState (Some ''constructor'') counter_store) = Inr (Builtin ''constructor'') \<and>
   subscribe ''constructor'' 5 counter_store = (Inl TypeError, counter_store)"
  by (simp add: counter_store_simps page_load_def getState_def read_prop_def listener_defs)

subsection \<open>What \<open>getState\<close> hands out\<close>

text \<open>
  C7 (as amended).  \<open>getState\<close> itself changes nothing, and neither \<open>subscribe\<close> nor
  an unsubscribe capability touches the state object or the store's reference to it.
  Called without a slice, \<open>getState\<close> returns the reference to the store's own state
  object, not a copy: a value the caller writes through that reference under a non-empty
  name \<open>k\<close> is what \<open>getState(k)\<close> returns afterwards.
\<close>

theorem getState_returns_live_reference:
  "snd (getState sl w) = w \<and>
   heap (snd (subscribe k l w)) = heap w \<and> state (store (snd (subscribe k l w))) = state (store w) \<and>
   heap (snd (unsubscribe cap w)) = heap w \<and> state (store (snd (unsubscribe cap w))) = state (store w) \<and>
   (isConfigured (store w) \<and> state (store w) = Some a \<longrightarrow>
      fst (getState None w) = Inr (Ref a) \<and>
      (k \<noteq> [] \<longrightarrow> fst (getState (Some k) (w\<lparr>heap := set_prop a k v (heap w)\<rparr>)) = Inr v))"
  by (simp add: getState_def subscribe_def unsubscribe_def checkConfigured_def Let_def
      read_prop_set_prop split: option.splits sum.splits lookup.splits)

text \<open>The counter store and a write of 42 into \<open>count\<close>.\<close>

theorem getState_returns_live_reference_witness:
  "isConfigured (store counter_store) \<and> state (store counter_store) = Some 1 \<and>
   fst (getState None counter_store) = Inr (Ref 1) \<and>
   fst (getState (Some ''count'')
         (counter_store\<lparr>heap := set_prop 1 ''count'' (JNum 42) (heap counter_store)\<rparr>)) =
     Inr (JNum 42)"
  using getState_returns_live_reference[of None counter_store "''count''" 0 "(''count'', 0)" 1 "JNum 42"]
  by (simp add: counter_store_simps)

text \<open>The caller obtains the state object of the counter store, writes 42 into its
  \<open>count\<close> property, and \<open>getState('count')\<close> changes from 0 to 42 with no dispatch in
  between.\<close>

theorem getState_alias_counterexample:
  "fst (getState None counter_store) = Inr (Ref 1) \<and>
   fst (getState (Some ''count'') counter_store) = Inr (JNum 0) \<and>
   fst (getState (Some ''count'')
         (counter_store\<lparr>heap := set_prop 1 ''count'' (JNum 42) (heap counter_store)\<rparr>)) =
     Inr (JNum 42)"
  by (simp add: counter_store_simps page_load_def getState_def checkConfigured_def
      read_prop_def set_prop_def lookup_def)

subsection \<open>Configuring again\<close>




section \<open>Components: rendering and routing\<close>

subsection \<open>What a render leaves untouched\<close>

lemma extends_refl: "extends b b"
  by (simp add: extends_def)

lemma extends_trans: "extends a b \<Longrightarrow> extends b c \<Longrightarrow> extends a c"
  by (auto simp: extends_def no_config_def)

lemma extends_logged: "extends b (logged es b)"
  by (simp add: extends_def logged_def)

lemma extends_loadConfig: "extends b (snd (loadConfig env b))"
  by (auto simp: loadConfig_def extends_def logged_def Let_def split: option.splits)

lemma snd_setPaths:
  "snd (setPaths env name b) = (if no_config b then snd (loadConfig env b) else b)"
  by (cases "loadConfig env b")
     (simp add: setPaths_def split: prod.splits sum.splits)

lemma extends_setPaths: "extends b (snd (setPaths env name b))"
  using extends_loadConfig[of b env] by (simp add: snd_setPaths extends_refl)

lemma extends_fetch: "extends b (snd (fetchTemplateAndStyles env paths b))"
  by (auto simp: fetchTemplateAndStyles_def extends_def logged_def Let_def split: option.splits)

lemma extends_applyStyles: "extends b (applyStyles env name css b)"
  by (auto simp: applyStyles_def extends_def getElementById_def Let_def)

lemma extends_prepare: "extends b (snd (prepare env name b))"
proof -
  obtain r1 b1 where s: "setPaths env name b = (r1, b1)" by (cases "setPaths env name b")
  have e1: "extends b b1" using extends_setPaths[of b env name] s by simp
  show ?thesis
  proof (cases r1)
    case (Inl e)
    with s e1 show ?thesis by (simp add: prepare_def)
  next
    case (Inr paths)
    obtain r2 b2 where f: "fetchTemplateAndStyles env paths b1 = (r2, b2)"
      by (cases "fetchTemplateAndStyles env paths b1")
    have e2: "extends b b2" using extends_fetch[of b1 env paths] f e1
      by (auto intro: extends_trans)
    show ?thesis
    proof (cases r2)
      case (Inl e)
      with s f Inr e2 show ?thesis by (simp add: prepare_def)
    next
      case r: (Inr ts)
      have "extends b (applyStyles env name (snd ts) b2)"
        using e2 extends_applyStyles by (rule extends_trans)
      with s f Inr r show ?thesis by (auto simp: prepare_def split: prod.splits)
    qed
  qed
qed

lemma extends_caught: "extends b (snd (caught e b))"
  by (simp add: caught_def extends_logged)

lemma extends_caught_eq: "caught e b = (r, b') \<Longrightarrow> extends b b'"
  using extends_caught[of b e] by simp

text \<open>Every run of \<open>#setup\<close>, of the placeholder loop and of \<open>render\<close> that returns
  only extends the browser state, whether it succeeds or fails.\<close>

lemma render_extends_all:
  shows "setup_component n env name b = Some (r, b') \<Longrightarrow> extends b b'"
    and "renderNestedComponents n env ps replaced el b = Some (r, b') \<Longrightarrow> extends b b'"
    and "render n env name b = Some (r, b') \<Longrightarrow> extends b b'"
proof (induction n env name b and n env ps replaced el b and n env name b
    arbitrary: r b' and r b' and r b'
    rule: setup_component_renderNestedComponents_render.induct)
  case (1 env name b)
  then show ?case by simp
next
  case (2 n env name b)
  obtain pr b1 where p: "prepare env name b = (pr, b1)" by (cases "prepare env name b")
  have e1: "extends b b1" using extends_prepare[of b env name] p by simp
  show ?case
  proof (cases pr)
    case (Inl e)
    with 2(2) p e1 extends_caught[of b1 e] show ?thesis
      by (auto intro: extends_trans)
  next
    case (Inr elo)
    show ?thesis
    proof (cases elo)
      case None
      with 2(2) p e1 Inr extends_caught[of b1 TypeError] show ?thesis
        by (auto intro: extends_trans)
    next
      case (Some el)
      show ?thesis
      proof (cases el)
        case (TextNode s)
        with 2(2) p e1 Inr Some extends_caught[of b1 TypeError] show ?thesis
          by (auto intro: extends_trans)
      next
        case (Element t as cs)
        with 2(2) p Inr Some obtain r2 b2 where
          rn: "renderNestedComponents n env (placeholders (Element t as cs)) [] (Element t as cs) b1 = Some (r2, b2)"
          by (auto split: option.splits)
        have e2: "extends b1 b2"
          using 2(1)[OF p[symmetric] Inr Some Element rn] .
        from 2(2) p Inr Some Element rn have "extends b2 b'"
          by (auto split: sum.splits intro: extends_refl extends_caught_eq)
        with e1 e2 show ?thesis
          by (auto intro: extends_trans)
      qed
    qed
  qed
next
  case (3 n env replaced el b)
  then show ?case by (simp add: extends_refl)
next
  case (4 n env p componentName ps replaced el b)
  show ?case
  proof (cases "componentName = []")
    case True
    with 4 show ?thesis by simp
  next
    case False
    show ?thesis
    proof (cases "module_path env b componentName")
      case (Inl e)
      with 4(4) False show ?thesis by (simp add: extends_refl)
    next
      case mp: (Inr path)
      let ?b1 = "logged [Import path] b"
      have e1: "extends b ?b1" by (rule extends_logged)
      show ?thesis
      proof (cases "import_module env path")
        case None
        with 4(4) False mp e1 show ?thesis by simp
      next
        case (Some cls)
        with 4(4) False mp obtain r2 b2 where rr: "render n env cls ?b1 = Some (r2, b2)"
          by (auto split: option.splits)
        have e2: "extends ?b1 b2" using 4(2)[OF False mp Some rr] .
        show ?thesis
        proof (cases r2)
          case (Inl e)
          with 4(4) False mp Some rr e1 e2 show ?thesis
            by (auto intro: extends_trans)
        next
          case (Inr nested)
          with 4(4) False mp Some rr have
            "renderNestedComponents n env ps (p # replaced)
               (if \<exists>q \<in> set replaced. prefix q p then el else replace_at p nested el) b2 = Some (r, b')"
            by simp
          from 4(3)[OF False mp Some rr refl Inr this] e1 e2 show ?thesis
            by (auto intro: extends_trans)
        qed
      qed
    qed
  qed
next
  case (5 n env name b)
  from 5(2) obtain r1 b1 where s: "setup_component n env name b = Some (r1, b1)"
    by (auto split: option.splits)
  have e1: "extends b b1" using 5(1)[OF s] .
  from 5(2) s have "b' = b1 \<or> b' = logged [Initialize name] b1"
    by (auto split: sum.splits)
  with e1 extends_logged show ?case by (auto intro: extends_trans)
qed

text \<open>The three ways in which the resolution of one placeholder returns.\<close>

lemma resolve_cases:
  assumes "resolve n env c b = Some (r, b')"
  shows "(\<exists>e. module_path env b c = Inl e \<and> r = Inl e \<and> b' = b) \<or>
         (\<exists>path. module_path env b c = Inr path \<and> import_module env path = None \<and>
            r = Inl (ModuleError path) \<and> b' = logged [Import path] b) \<or>
         (\<exists>path cls. module_path env b c = Inr path \<and> import_module env path = Some cls \<and>
            render n env cls (logged [Import path] b) = Some (r, b'))"
  using assms by (auto simp: resolve_def simp del: render.simps split: sum.splits option.splits)

lemma resolve_extends:
  assumes "resolve n env c b = Some (r, b')"
  shows "extends b b'"
  using resolve_cases[OF assms] render_extends_all(3) extends_logged extends_refl
  by (blast intro: extends_trans)

lemma render_success_last:
  "render n env name b = Some (Inr el, b') \<Longrightarrow> trace b' \<noteq> [] \<and> last (trace b') = Initialize name"
  by (auto simp: logged_def split: option.splits sum.splits)

lemma renderNested_Cons:
  "c \<noteq> [] \<Longrightarrow>
   renderNestedComponents n env ((p, c) # ps) replaced el b =
     (case resolve n env c b of
        None \<Rightarrow> None
      | Some (Inl e, b2) \<Rightarrow> Some (Inl e, b2)
      | Some (Inr nestedElement, b2) \<Rightarrow>
          renderNestedComponents n env ps (p # replaced)
            (if \<exists>q \<in> set replaced. prefix q p then el else replace_at p nestedElement el) b2)"
  by (simp add: resolve_def split: option.splits sum.splits)

text \<open>With a component directory, the resolution of a placeholder starts with the import
  of the module; when it succeeds, it ends with the \<open>initialize\<close> of the child.\<close>

lemma module_path_directory:
  "config b = Some (Directory dir) \<Longrightarrow>
     module_path env b c = Inr (''/'' @ js_string env (lookup dir c) @ c @ ''.js'')"
  by (simp add: module_path_def directory_entry_def)

lemma resolve_trace:
  assumes "resolve n env c b = Some (r, b')" and "module_path env b c = Inr path"
  shows "prefix (trace b @ [Import path]) (trace b')"
    and "\<And>child. r = Inr child \<Longrightarrow> \<exists>cls. last (trace b') = Initialize cls"
proof -
  let ?b1 = "logged [Import path] b"
  from resolve_cases[OF assms(1)] assms(2) consider
    (fail) "import_module env path = None" "r = Inl (ModuleError path)" "b' = ?b1"
    | (run) cls where "import_module env path = Some cls" "render n env cls ?b1 = Some (r, b')"
    by auto
  note cs = this
  show "prefix (trace b @ [Import path]) (trace b')"
  proof (cases rule: cs)
    case fail
    then show ?thesis by (simp add: logged_def)
  next
    case (run cls)
    from render_extends_all(3)[OF run(2)] show ?thesis by (simp add: extends_def logged_def)
  qed
  show "\<exists>cls. last (trace b') = Initialize cls" if "r = Inr child" for child
  proof (cases rule: cs)
    case fail
    with that show ?thesis by simp
  next
    case (run cls)
    with that have "render n env cls ?b1 = Some (Inr child, b')" by simp
    from render_success_last[OF this] show ?thesis by blast
  qed
qed

subsection \<open>The bound on the depth\<close>

text \<open>A run that returns within some bound returns the same within every larger one.\<close>

lemma more_fuel:
  shows "setup_component n env name b = Some r \<Longrightarrow> setup_component (Suc n) env name b = Some r"
    and "renderNestedComponents n env ps replaced el b = Some r \<Longrightarrow>
           renderNestedComponents (Suc n) env ps replaced el b = Some r"
    and "render n env name b = Some r \<Longrightarrow> render (Suc n) env name b = Some r"
proof (induction n env name b and n env ps replaced el b and n env name b
    arbitrary: r and r and r
    rule: setup_component_renderNestedComponents_render.induct)
  case (1 env name b)
  then show ?case by simp
next
  case (2 n env name b)
  obtain pr b1 where p: "prepare env name b = (pr, b1)" by (cases "prepare env name b")
  show ?case
  proof (cases pr)
    case (Inl e)
    with 2(2) p show ?thesis by simp
  next
    case (Inr elo)
    show ?thesis
    proof (cases elo)
      case None
      with 2(2) p Inr show ?thesis by simp
    next
      case (Some el)
      show ?thesis
      proof (cases el)
        case (TextNode s)
        with 2(2) p Inr Some show ?thesis by simp
      next
        case (Element t as cs)
        with 2(2) p Inr Some obtain r2 where
          rn: "renderNestedComponents n env (placeholders (Element t as cs)) [] (Element t as cs) b1 = Some r2"
          by (auto split: option.splits)
        from 2(1)[OF p[symmetric] Inr Some Element rn]
        have "renderNestedComponents (Suc n) env (placeholders (Element t as cs)) [] (Element t as cs) b1 = Some r2" .
        with 2(2) p Inr Some Element rn show ?thesis by simp
      qed
    qed
  qed
next
  case (3 n env replaced el b)
  then show ?case by simp
next
  case (4 n env p componentName ps replaced el b)
  show ?case
  proof (cases "componentName = []")
    case True
    with 4 show ?thesis by simp
  next
    case False
    show ?thesis
    proof (cases "module_path env b componentName")
      case (Inl e)
      with 4(4) False show ?thesis by simp
    next
      case mp: (Inr path)
      let ?b1 = "logged [Import path] b"
      show ?thesis
      proof (cases "import_module env path")
        case None
        with 4(4) False mp show ?thesis by simp
      next
        case (Some cls)
        with 4(4) False mp obtain r2 b2 where rr: "render n env cls ?b1 = Some (r2, b2)"
          by (auto split: option.splits)
        have rr': "render (Suc n) env cls ?b1 = Some (r2, b2)"
          using 4(2)[OF False mp Some rr] .
        show ?thesis
        proof (cases r2)
          case (Inl e)
          with 4(4) False mp Some rr rr' show ?thesis
            by (auto simp del: render.simps)
        next
          case (Inr nested)
          with 4(4) False mp Some rr have
            rest: "renderNestedComponents n env ps (p # replaced)
               (if \<exists>q \<in> set replaced. prefix q p then el else replace_at p nested el) b2 = Some r"
            by simp
          from 4(3)[OF False mp Some rr refl Inr rest] False mp Some rr' Inr show ?thesis
            by (simp del: render.simps)
        qed
      qed
    qed
  qed
next
  case (5 n env name b)
  from 5(2) obtain r1 where s: "setup_component n env name b = Some r1"
    by (auto split: option.splits)
  from 5(1)[OF s] have "setup_component (Suc n) env name b = Some r1" .
  with 5(2) s show ?case by (simp del: setup_component.simps)
qed

lemma enough_fuel:
  "render n env name b = Some r \<Longrightarrow> n \<le> m \<Longrightarrow> render m env name b = Some r"
proof (induction m)
  case 0
  then show ?case by simp
next
  case (Suc m)
  show ?case
  proof (cases "n = Suc m")
    case True
    with Suc.prems show ?thesis by simp
  next
    case False
    with Suc have "render m env name b = Some r" by simp
    then show ?thesis by (rule more_fuel(3))
  qed
qed

subsection \<open>Paths in a tree\<close>

lemma get_in_nth: "get_in i p cs = (if i < length cs then get_at p (cs ! i) else None)"
proof (induction cs arbitrary: i)
  case Nil
  then show ?case by simp
next
  case (Cons c cs)
  then show ?case by (cases i) simp_all
qed

lemma replace_in_nth:
  "replace_in i p new cs = (if i < length cs then cs[i := replace_at p new (cs ! i)] else cs)"
proof (induction cs arbitrary: i)
  case Nil
  then show ?case by simp
next
  case (Cons c cs)
  then show ?case by (cases i) simp_all
qed

lemma get_at_replace_at_same:
  "get_at p t \<noteq> None \<Longrightarrow> get_at p (replace_at p new t) = Some new"
proof (induction p arbitrary: t)
  case Nil
  then show ?case by simp
next
  case (Cons i p)
  then show ?case
    by (cases t) (auto simp: get_in_nth replace_in_nth split: if_splits)
qed

lemma get_at_replace_at_other:
  "\<not> prefix q p \<Longrightarrow> \<not> prefix p q \<Longrightarrow> get_at p (replace_at q new t) = get_at p t"
proof (induction p arbitrary: q t)
  case Nil
  then show ?case by simp
next
  case (Cons i p)
  from Cons.prems obtain j q' where q: "q = j # q'" by (cases q) auto
  show ?case
  proof (cases t)
    case (TextNode s)
    then show ?thesis by (simp add: q)
  next
    case (Element tag as cs)
    show ?thesis
    proof (cases "i = j")
      case True
      with Cons.prems q have "\<not> prefix q' p" "\<not> prefix p q'" by simp_all
      from Cons.IH[OF this] True Element q show ?thesis
        by (simp add: get_in_nth replace_in_nth)
    next
      case False
      with Element q show ?thesis by (simp add: get_in_nth replace_in_nth)
    qed
  qed
qed

lemma get_at_replace_at_valid:
  "\<not> prefix q p \<Longrightarrow> get_at p t \<noteq> None \<Longrightarrow> get_at p (replace_at q new t) \<noteq> None"
proof (induction p arbitrary: q t)
  case Nil
  then show ?case by simp
next
  case (Cons i p)
  from Cons.prems obtain j q' where q: "q = j # q'" by (cases q) auto
  from Cons.prems obtain tag as cs where t: "t = Element tag as cs" by (cases t) auto
  from Cons.prems t have v: "i < length cs" "get_at p (cs ! i) \<noteq> None"
    by (auto simp: get_in_nth split: if_splits)
  show ?case
  proof (cases "i = j")
    case True
    with Cons.prems q have "\<not> prefix q' p" by simp
    from Cons.IH[OF this v(2)] True t q v(1) show ?thesis
      by (simp add: get_in_nth replace_in_nth)
  next
    case False
    with t q v show ?thesis by (simp add: get_in_nth replace_in_nth)
  qed
qed

lemma placeholders_valid:
  shows "(p, c) \<in> set (placeholders t) \<Longrightarrow> get_at p t \<noteq> None"
    and "(p, c) \<in> set (placeholders_from i cs) \<Longrightarrow>
           \<exists>j p'. p = (i + j) # p' \<and> j < length cs \<and> get_at p' (cs ! j) \<noteq> None"
proof (induction t and i cs arbitrary: p and p rule: placeholders_placeholders_from.induct)
  case (1 s)
  then show ?case by simp
next
  case (2 t as cs)
  from 2(2) have "(p, c) \<in> set (placeholders_from 0 cs)" by simp
  from 2(1)[OF this] show ?case by (auto simp: get_in_nth)
next
  case (3 i)
  then show ?case by simp
next
  case (4 i d cs)
  from 4(3) consider
      (here) "p = [i]"
    | (below) p' where "p = i # p'" "(p', c) \<in> set (placeholders d)"
    | (later) "(p, c) \<in> set (placeholders_from (Suc i) cs)"
    by (auto split: node.splits option.splits)
  then show ?case
  proof cases
    case here
    then have "p = (i + 0) # [] \<and> 0 < length (d # cs) \<and> get_at [] ((d # cs) ! 0) \<noteq> None"
      by simp
    then show ?thesis by blast
  next
    case below
    from 4(1)[OF below(2)] below(1)
    have "p = (i + 0) # p' \<and> 0 < length (d # cs) \<and> get_at p' ((d # cs) ! 0) \<noteq> None"
      by simp
    then show ?thesis by blast
  next
    case later
    from 4(2)[OF later] obtain j p' where
      "p = (Suc i + j) # p'" "j < length cs" "get_at p' (cs ! j) \<noteq> None" by blast
    then have "p = (i + Suc j) # p' \<and> Suc j < length (d # cs) \<and> get_at p' ((d # cs) ! Suc j) \<noteq> None"
      by simp
    then show ?thesis by blast
  qed
qed

subsection \<open>The placeholder loop\<close>

text \<open>An element attached at a replaced path stays there while the rest of the list is
  processed, provided no later placeholder lies on the way to it.\<close>

lemma renderNested_keeps:
  assumes "renderNestedComponents n env ps replaced el b = Some (Inr el', b')"
    and "get_at p el = Some x" and "p \<in> set replaced"
    and "\<forall>a \<in> set ps. \<not> prefix (fst a) p"
  shows "get_at p el' = Some x"
  using assms
proof (induction ps arbitrary: replaced el b)
  case Nil
  then show ?case by simp
next
  case (Cons a ps)
  obtain q d where a: "a = (q, d)" by (cases a)
  from Cons.prems(4) a have nq: "\<not> prefix q p" and rest: "\<forall>a \<in> set ps. \<not> prefix (fst a) p"
    by simp_all
  show ?case
  proof (cases "d = []")
    case True
    with Cons.prems(1) a
    have "renderNestedComponents n env ps replaced el b = Some (Inr el', b')" by simp
    from Cons.IH[OF this Cons.prems(2,3) rest] show ?thesis .
  next
    case False
    note run = Cons.prems(1)[unfolded a renderNested_Cons[OF False]]
    then obtain child b2 where rs: "resolve n env d b = Some (Inr child, b2)"
      by (auto split: option.splits sum.splits)
    let ?el0 = "if \<exists>q' \<in> set replaced. prefix q' q then el else replace_at q child el"
    from run rs have r2: "renderNestedComponents n env ps (q # replaced) ?el0 b2 = Some (Inr el', b')"
      by simp
    have g: "get_at p ?el0 = Some x"
    proof (cases "\<exists>q' \<in> set replaced. prefix q' q")
      case True
      with Cons.prems(2) show ?thesis by simp
    next
      case False
      with Cons.prems(3) have "\<not> prefix p q" by blast
      from get_at_replace_at_other[OF nq this] False Cons.prems(2) show ?thesis by simp
    qed
    from Cons.prems(3) have "p \<in> set (q # replaced)" by simp
    from Cons.IH[OF r2 g this rest] show ?thesis .
  qed
qed

text \<open>A placeholder that is not inside another one ends up replaced by the element that
  the resolution of its child returned.\<close>

lemma renderNested_attaches:
  assumes "renderNestedComponents n env ps replaced el b = Some (Inr el', b')"
    and "i < length ps" and "ps ! i = (p, T)" and "T \<noteq> []" and "get_at p el \<noteq> None"
    and "\<forall>q \<in> set replaced. \<not> prefix q p"
    and "\<forall>k < length ps. k \<noteq> i \<longrightarrow> \<not> prefix (fst (ps ! k)) p"
  shows "\<exists>child s s'. resolve n env T s = Some (Inr child, s') \<and> extends b s \<and> extends s' b' \<and>
           get_at p el' = Some child"
  using assms(1,2,3,5,6,7)
proof (induction ps arbitrary: i replaced el b)
  case Nil
  then show ?case by simp
next
  case (Cons a ps)
  obtain q d where a: "a = (q, d)" by (cases a)
  show ?case
  proof (cases i)
    case 0
    with Cons.prems(3) a have qd: "q = p" "d = T" by simp_all
    note run = Cons.prems(1)[unfolded a qd renderNested_Cons[OF assms(4)]]
    then obtain child b2 where rs: "resolve n env T b = Some (Inr child, b2)"
      by (auto split: option.splits sum.splits)
    from Cons.prems(5) have nd: "\<not> (\<exists>q' \<in> set replaced. prefix q' p)" by blast
    from run rs nd
    have r2: "renderNestedComponents n env ps (p # replaced) (replace_at p child el) b2 = Some (Inr el', b')"
      by simp
    have g: "get_at p (replace_at p child el) = Some child"
      using Cons.prems(4) by (rule get_at_replace_at_same)
    have rest: "\<forall>a \<in> set ps. \<not> prefix (fst a) p"
    proof
      fix x assume "x \<in> set ps"
      then obtain k where k: "k < length ps" "ps ! k = x" by (auto simp: in_set_conv_nth)
      with Cons.prems(6)[rule_format, of "Suc k"] 0 show "\<not> prefix (fst x) p" by simp
    qed
    have "get_at p el' = Some child"
      using renderNested_keeps[OF r2 g _ rest] by simp
    moreover have "extends b2 b'" using render_extends_all(2)[OF r2] .
    ultimately show ?thesis using rs extends_refl by blast
  next
    case (Suc i')
    from Cons.prems(6)[rule_format, of 0] a Suc have nq: "\<not> prefix q p" by simp
    have i': "i' < length ps" "ps ! i' = (p, T)" using Cons.prems(2,3) Suc by simp_all
    have rest: "\<forall>k < length ps. k \<noteq> i' \<longrightarrow> \<not> prefix (fst (ps ! k)) p"
    proof (intro allI impI)
      fix k assume "k < length ps" "k \<noteq> i'"
      with Cons.prems(6)[rule_format, of "Suc k"] Suc show "\<not> prefix (fst (ps ! k)) p" by simp
    qed
    show ?thesis
    proof (cases "d = []")
      case True
      with Cons.prems(1) a
      have "renderNestedComponents n env ps replaced el b = Some (Inr el', b')" by simp
      from Cons.IH[OF this i' Cons.prems(4,5) rest] show ?thesis .
    next
      case False
      note run = Cons.prems(1)[unfolded a renderNested_Cons[OF False]]
      then obtain child b2 where rs: "resolve n env d b = Some (Inr child, b2)"
        by (auto split: option.splits sum.splits)
      let ?el0 = "if \<exists>q' \<in> set replaced. prefix q' q then el else replace_at q child el"
      from run rs have r2: "renderNestedComponents n env ps (q # replaced) ?el0 b2 = Some (Inr el', b')"
        by simp
      have g: "get_at p ?el0 \<noteq> None"
        using get_at_replace_at_valid[OF nq Cons.prems(4)] Cons.prems(4) by simp
      have nr: "\<forall>q' \<in> set (q # replaced). \<not> prefix q' p"
        using nq Cons.prems(5) by simp
      from Cons.IH[OF r2 i' g nr rest] obtain child' s s' where
        k: "resolve n env T s = Some (Inr child', s')" "extends b2 s" "extends s' b'"
          "get_at p el' = Some child'" by blast
      from resolve_extends[OF rs] k(2) have "extends b s" by (rule extends_trans)
      with k show ?thesis by blast
    qed
  qed
qed

lemma getElementById_applyStyles:
  "getElementById env (applyStyles env name css b) (name @ ''-styles'')"
  by (auto simp: applyStyles_def getElementById_def Let_def)

lemma getElementById_extends:
  "extends b b' \<Longrightarrow> getElementById env b i \<Longrightarrow> getElementById env b' i"
  by (auto simp: extends_def getElementById_def dest: set_mono_prefix)

lemma prepare_styled:
  "prepare env name b = (Inr el, b1) \<Longrightarrow> getElementById env b1 (name @ ''-styles'')"
  by (auto simp: prepare_def getElementById_applyStyles split: prod.splits sum.splits)

lemma render_success_styled:
  assumes "render n env name b = Some (Inr el, b')"
  shows "getElementById env b' (name @ ''-styles'')"
proof -
  from assms obtain b0 where s: "setup_component n env name b = Some (Inr el, b0)"
    and e0: "extends b0 b'"
    by (auto simp: extends_logged split: option.splits sum.splits)
  from s obtain m where n: "n = Suc m" by (cases n) auto
  obtain pr b1 where p: "prepare env name b = (pr, b1)" by (cases "prepare env name b")
  from s n p obtain t as cs b2 where
    pr: "pr = Inr (Some (Element t as cs))"
    and rn: "renderNestedComponents m env (placeholders (Element t as cs)) [] (Element t as cs) b1 = Some (Inr el, b2)"
    and b2: "b0 = b2"
    by (auto simp: caught_def split: sum.splits option.splits node.splits)
  from prepare_styled p pr have "getElementById env b1 (name @ ''-styles'')" by blast
  moreover have "extends b1 b'"
    using render_extends_all(2)[OF rn] b2 e0 by (blast intro: extends_trans)
  ultimately show ?thesis by (rule getElementById_extends[rotated])
qed

lemma count_distinct_keys:
  "distinct (map fst xs) \<Longrightarrow>
   length (filter (\<lambda>s. fst s = k) xs) = (if k \<in> fst ` set xs then 1 else 0)"
  by (induction xs) (auto simp: image_iff)

lemma prepare_config:
  "prepare env name b = (Inr x, b1) \<Longrightarrow> \<exists>dir. config b1 = Some (Directory dir)"
proof -
  assume p: "prepare env name b = (Inr x, b1)"
  obtain r0 b0 where s: "setPaths env name b = (r0, b0)" by (cases "setPaths env name b")
  from p s obtain paths where r0: "r0 = Inr paths"
    by (cases r0) (auto simp: prepare_def)
  from s r0 obtain dir where c0: "config b0 = Some (Directory dir)"
    by (cases "if no_config b then loadConfig env b else (Inr (), b)"; cases "config b0")
       (auto simp: setPaths_def directory_entry_def
          split: prod.splits sum.splits option.splits config_doc.splits if_splits)
  from p s r0 have "config b1 = config b0"
    by (auto simp: prepare_def fetchTemplateAndStyles_def applyStyles_def Let_def logged_def
        split: prod.splits sum.splits option.splits if_splits)
  with c0 show ?thesis by simp
qed

lemma config_extends:
  "extends b b' \<Longrightarrow> config b = Some (Directory dir) \<Longrightarrow> config b' = Some (Directory dir)"
  by (simp add: extends_def no_config_def)

lemma module_path_extends:
  "extends b b' \<Longrightarrow> config b = Some (Directory dir) \<Longrightarrow>
     module_path env b' c = module_path env b c"
  using config_extends[of b b' dir] by (simp add: module_path_def directory_entry_def)

lemma resolve_success_render:
  assumes "resolve n env T s = Some (Inr c, s')" and "module_path env s T = Inr path"
    and "import_module env path = Some cls"
  shows "render n env cls (logged [Import path] s) = Some (Inr c, s')"
  using assms by (simp add: resolve_def del: render.simps)

lemma render_success_nested:
  assumes "render (Suc m) env name b = Some (Inr el', b')"
    and "prepare env name b = (Inr (Some el), b1)"
  shows "\<exists>b0. renderNestedComponents m env (placeholders el) [] el b1 = Some (Inr el', b0) \<and>
           extends b0 b'"
proof -
  from assms(1) obtain b0 where s: "setup_component (Suc m) env name b = Some (Inr el', b0)"
    and e0: "extends b0 b'"
    by (auto simp: extends_logged split: option.splits sum.splits)
  from s assms(2) have "renderNestedComponents m env (placeholders el) [] el b1 = Some (Inr el', b0)"
    by (cases el) (auto simp: caught_def split: option.splits sum.splits)
  with e0 show ?thesis by blast
qed

lemma attached_child_styled:
  assumes rn: "renderNestedComponents m env ps [] el b1 = Some (Inr el', b0)"
    and cfg: "config b1 = Some (Directory dir)"
    and i: "i < length ps" "ps ! i = (p, T)" "T \<noteq> []" "get_at p el \<noteq> None"
    and top: "\<forall>k < length ps. k \<noteq> i \<longrightarrow> \<not> prefix (fst (ps ! k)) p"
    and mp: "module_path env b1 T = Inr path"
    and cls: "import_module env path = Some cls"
  shows "\<exists>c s s'. render m env cls s = Some (Inr c, s') \<and> get_at p el' = Some c \<and>
           getElementById env b0 (cls @ ''-styles'')"
proof -
  from renderNested_attaches[OF rn i _ top] obtain c s s' where
    k: "resolve m env T s = Some (Inr c, s')" "extends b1 s" "extends s' b0" "get_at p el' = Some c"
    by auto
  from module_path_extends[OF k(2) cfg] mp have "module_path env s T = Inr path" by simp
  from resolve_success_render[OF k(1) this cls]
  have r: "render m env cls (logged [Import path] s) = Some (Inr c, s')" .
  from render_success_styled[OF r] k(3) have "getElementById env b0 (cls @ ''-styles'')"
    by (rule getElementById_extends[rotated])
  with r k(4) show ?thesis by blast
qed

subsection \<open>Document order\<close>

lemma placeholders_iff:
  shows "(p, v) \<in> set (placeholders t) \<longleftrightarrow>
           p \<noteq> [] \<and> (\<exists>tag as cs. get_at p t = Some (Element tag as cs) \<and>
                         map_of as ''data-component'' = Some v)"
    and "(p, v) \<in> set (placeholders_from i cs) \<longleftrightarrow>
           (\<exists>j p'. p = (i + j) # p' \<and> j < length cs \<and>
              (\<exists>tag as ds. get_at p' (cs ! j) = Some (Element tag as ds) \<and>
                 map_of as ''data-component'' = Some v))"
proof (induction t and i cs arbitrary: p and p rule: placeholders_placeholders_from.induct)
  case (1 s)
  show ?case by (cases p) simp_all
next
  case (2 t as cs)
  show ?case
  proof (cases p)
    case Nil
    then show ?thesis using 2[of p] by simp
  next
    case (Cons j p')
    then show ?thesis using 2[of p] by (auto simp: get_in_nth)
  qed
next
  case (3 i)
  show ?case by simp
next
  case (4 i d cs)
  let ?here = "case d of
        Element t as ds \<Rightarrow>
          (case map_of as ''data-component'' of None \<Rightarrow> [] | Some v \<Rightarrow> [([i], v)])
      | TextNode s \<Rightarrow> []"
  let ?Q = "\<lambda>n p'. \<exists>tag as ds. get_at p' n = Some (Element tag as ds) \<and>
                 map_of as ''data-component'' = Some v"
  have here: "(p, v) \<in> set ?here \<longleftrightarrow> p = [i] \<and> ?Q d []"
    by (auto split: node.splits option.splits)
  have "(p, v) \<in> set (map (\<lambda>(p, v). (i # p, v)) (placeholders d)) \<longleftrightarrow>
      (\<exists>p'. p = i # p' \<and> (p', v) \<in> set (placeholders d))"
    by force
  then have below: "(p, v) \<in> set (map (\<lambda>(p, v). (i # p, v)) (placeholders d)) \<longleftrightarrow>
      (\<exists>p'. p = i # p' \<and> p' \<noteq> [] \<and> ?Q d p')"
    unfolding 4(1) .
  have later: "(p, v) \<in> set (placeholders_from (Suc i) cs) \<longleftrightarrow>
      (\<exists>j p'. p = (i + Suc j) # p' \<and> j < length cs \<and> ?Q (cs ! j) p')"
    using 4(2)[of p] by simp
  have split: "(\<exists>j p'. p = (i + j) # p' \<and> j < length (d # cs) \<and> ?Q ((d # cs) ! j) p') \<longleftrightarrow>
      (\<exists>p'. p = i # p' \<and> ?Q d p') \<or>
      (\<exists>j p'. p = (i + Suc j) # p' \<and> j < length cs \<and> ?Q (cs ! j) p')"
    (is "?L \<longleftrightarrow> ?A \<or> ?B")
  proof
    assume ?L
    then obtain j p' where k: "p = (i + j) # p'" "j < length (d # cs)" "?Q ((d # cs) ! j) p'"
      by blast
    show "?A \<or> ?B"
    proof (cases j)
      case 0
      with k have ?A by simp
      then show ?thesis ..
    next
      case (Suc j')
      with k have "p = (i + Suc j') # p' \<and> j' < length cs \<and> ?Q (cs ! j') p'" by simp
      then have ?B by blast
      then show ?thesis ..
    qed
  next
    assume "?A \<or> ?B"
    then show ?L
    proof
      assume ?A
      then obtain p' where "p = (i + 0) # p' \<and> 0 < length (d # cs) \<and> ?Q ((d # cs) ! 0) p'"
        by auto
      then show ?L by blast
    next
      assume ?B
      then obtain j p' where "p = (i + Suc j) # p' \<and> Suc j < length (d # cs) \<and>
          ?Q ((d # cs) ! Suc j) p'"
        by auto
      then show ?L by blast
    qed
  qed
  have "(p, v) \<in> set (placeholders_from i (d # cs)) \<longleftrightarrow>
      (p, v) \<in> set ?here \<or> (p, v) \<in> set (map (\<lambda>(p, v). (i # p, v)) (placeholders d)) \<or>
      (p, v) \<in> set (placeholders_from (Suc i) cs)"
    by simp
  also have "\<dots> \<longleftrightarrow> (\<exists>p'. p = i # p' \<and> ?Q d p') \<or>
      (\<exists>j p'. p = (i + Suc j) # p' \<and> j < length cs \<and> ?Q (cs ! j) p')"
    unfolding here below later by (cases p) auto
  finally show ?case unfolding split .
qed

lemma precedes_Cons: "sorted_wrt precedes ps \<Longrightarrow> sorted_wrt precedes (map ((#) i) ps)"
  by (induction ps) auto

lemma placeholders_sorted:
  shows "sorted_wrt precedes (map fst (placeholders t))"
    and "sorted_wrt precedes (map fst (placeholders_from i cs))"
proof (induction t and i cs rule: placeholders_placeholders_from.induct)
  case (1 s)
  show ?case by simp
next
  case (2 t as cs)
  then show ?case by simp
next
  case (3 i)
  show ?case by simp
next
  case (4 i d cs)
  let ?here = "case d of
        Element t as ds \<Rightarrow>
          (case map_of as ''data-component'' of None \<Rightarrow> [] | Some v \<Rightarrow> [([i], v)])
      | TextNode s \<Rightarrow> []"
  let ?below = "map (\<lambda>(p, v). (i # p, v)) (placeholders d)"
  have mb: "map fst ?below = map ((#) i) (map fst (placeholders d))"
    by (simp add: case_prod_unfold comp_def)
  have h: "set (map fst ?here) \<subseteq> {[i]}" by (auto split: node.splits option.splits)
  have sh: "sorted_wrt precedes (map fst ?here)" by (auto split: node.splits option.splits)
  have b: "\<forall>p \<in> set (map fst ?below). \<exists>p'. p = i # p' \<and> p' \<noteq> []"
    using placeholders_iff(1)[of _ _ d] by (auto simp: image_iff)
  have sb: "sorted_wrt precedes (map fst ?below)"
    unfolding mb using 4(1) by (rule precedes_Cons)
  have l: "\<forall>p \<in> set (map fst (placeholders_from (Suc i) cs)). \<exists>j p'. p = j # p' \<and> i < j"
  proof
    fix p assume "p \<in> set (map fst (placeholders_from (Suc i) cs))"
    then obtain v where "(p, v) \<in> set (placeholders_from (Suc i) cs)" by auto
    then obtain j p' where "p = (Suc i + j) # p'" unfolding placeholders_iff(2) by blast
    then show "\<exists>j p'. p = j # p' \<and> i < j" by simp
  qed
  have hb: "\<forall>x \<in> set (map fst ?here). \<forall>y \<in> set (map fst ?below). precedes x y"
  proof (intro ballI)
    fix x y assume "x \<in> set (map fst ?here)" "y \<in> set (map fst ?below)"
    with h b obtain p' where "x = [i]" "y = i # p'" "p' \<noteq> []" by blast
    then show "precedes x y" by (cases p') simp_all
  qed
  have hl: "\<forall>x \<in> set (map fst ?here). \<forall>y \<in> set (map fst (placeholders_from (Suc i) cs)).
      precedes x y"
  proof (intro ballI)
    fix x y assume "x \<in> set (map fst ?here)" "y \<in> set (map fst (placeholders_from (Suc i) cs))"
    with h l obtain j p' where "x = [i]" "y = j # p'" "i < j" by blast
    then show "precedes x y" by simp
  qed
  have bl: "\<forall>x \<in> set (map fst ?below). \<forall>y \<in> set (map fst (placeholders_from (Suc i) cs)).
      precedes x y"
  proof (intro ballI)
    fix x y assume "x \<in> set (map fst ?below)" "y \<in> set (map fst (placeholders_from (Suc i) cs))"
    with b l obtain q j p' where "x = i # q" "y = j # p'" "i < j" by blast
    then show "precedes x y" by simp
  qed
  define H where "H = map fst ?here"
  define B where "B = map fst ?below"
  define L where "L = map fst (placeholders_from (Suc i) cs)"
  have "sorted_wrt precedes (H @ B @ L)"
    using sh sb 4(2) hb hl bl unfolding H_def[symmetric] B_def[symmetric] L_def[symmetric]
    by (auto simp: sorted_wrt_append)
  moreover have "map fst (placeholders_from i (d # cs)) = H @ B @ L"
    by (simp add: H_def B_def L_def)
  ultimately show ?case by simp
qed

subsection \<open>The small site, evaluated\<close>

lemma site_facts:
  "load_json site ''./JamoComponentsConfig.json'' = Some (Directory site_directory)"
  "fetch site ''pages/Page.html'' = Some ''<div><i data-component=Card></i><i data-component=Card></i></div>''"
  "fetch site ''pages/Page.css'' = Some ''div{margin:0}''"
  "fetch site ''cards/Card.html'' = Some ''<p>hi</p>''"
  "fetch site ''cards/Card.css'' = Some ''p{color:red}''"
  "fetch site ''broken/Broken.html'' = Some ''<div><i data-component=Ghost></i></div>''"
  "fetch site ''broken/Broken.css'' = Some []"
  "fetch site ''badges/Badge.html'' = Some ''<span>new</span>''"
  "fetch site ''badges/Badge.css'' = Some ''span{top:0}''"
  "fetch site ''boards/Board.html'' =
     Some ''<div><b data-component=Badge></b><i data-component=Card></i><i data-component=Card></i></div>''"
  "fetch site ''boards/Board.css'' = Some []"
  "fetch site ''nest/Nest.html'' =
     Some ''<div><s data-component=Wrap><i data-component=Card></i><i data-component=Card></i></s></div>''"
  "fetch site ''nest/Nest.css'' = Some []"
  "fetch site ''wrap/Wrap.html'' = Some ''<section></section>''"
  "fetch site ''wrap/Wrap.css'' = Some []"
  "first_child_of_html site ''<div><i data-component=Card></i><i data-component=Card></i></div>'' = Some page_template"
  "first_child_of_html site ''<p>hi</p>'' = Some card_element"
  "first_child_of_html site ''<div><i data-component=Ghost></i></div>'' = Some broken_template"
  "first_child_of_html site ''<span>new</span>'' = Some badge_element"
  "first_child_of_html site
     ''<div><b data-component=Badge></b><i data-component=Card></i><i data-component=Card></i></div>'' =
     Some board_template"
  "first_child_of_html site
     ''<div><s data-component=Wrap><i data-component=Card></i><i data-component=Card></i></s></div>'' =
     Some nest_template"
  "first_child_of_html site ''<section></section>'' = Some wrap_element"
  "import_module site ''/cards/Card.js'' = Some ''Card''"
  "import_module site ''/badges/Badge.js'' = Some ''Badge''"
  "import_module site ''/wrap/Wrap.js'' = Some ''Wrap''"
  "import_module site ''/undefinedGhost.js'' = None"
  "lookup site_directory ''Card'' = Own ''cards/''"
  "lookup site_directory ''Page'' = Own ''pages/''"
  "lookup site_directory ''Broken'' = Own ''broken/''"
  "lookup site_directory ''Badge'' = Own ''badges/''"
  "lookup site_directory ''Board'' = Own ''boards/''"
  "lookup site_directory ''Nest'' = Own ''nest/''"
  "lookup site_directory ''Wrap'' = Own ''wrap/''"
  "lookup site_directory ''Ghost'' = Missing"
  "page_ids site = [''root'']"
  by (simp_all add: site_def site_directory_def lookup_def object_prototype_def
      inherited_functions_def)

lemma clash_site_facts:
  "load_json clash_site = load_json site" "fetch clash_site = fetch site"
  "first_child_of_html clash_site = first_child_of_html site"
  "import_module clash_site = import_module site"
  "page_ids clash_site = [''root'', ''Card-styles'']"
  by (simp_all add: clash_site_def)

lemmas render_defs = prepare_def setPaths_def loadConfig_def no_config_def directory_entry_def
  logged_def fetchTemplateAndStyles_def parseHTML_def applyStyles_def getElementById_def
  module_path_def js_string_def caught_def Let_def

lemma placeholders_page: "placeholders page_template = [([0], ''Card''), ([1], ''Card'')]"
  by (simp add: page_template_def)

lemma placeholders_board:
  "placeholders board_template = [([0], ''Badge'')] @ ([1], ''Card'') # [([2], ''Card'')]"
  by (simp add: board_template_def)

lemma placeholders_nest:
  "placeholders nest_template = [([0], ''Wrap''), ([0, 0], ''Card''), ([0, 1], ''Card'')]"
  by (simp add: nest_template_def)

lemma render_page:
  "prepare site ''Page'' fresh_page = (Inr (Some page_template), page_prepared)"
  "render (Suc (Suc 0)) site ''Page'' fresh_page = Some (Inr page_rendered, page_final)"
  by (simp_all add: site_facts fresh_page_def page_final_def page_nested_def page_prepared_def
      card_events_def render_defs page_template_def card_element_def page_rendered_def)

lemma card_then_page:
  "renders (Suc 0) site [''Card''] fresh_page = Some card_first"
  "prepare site ''Page'' card_first = (Inr (Some page_template), page_second_prepared)"
  "render (Suc (Suc 0)) site ''Page'' card_first = Some (Inr page_rendered, page_second)"
  by (simp_all add: site_facts fresh_page_def card_first_def page_second_prepared_def
      page_second_def card_events_def render_defs page_template_def card_element_def
      page_rendered_def)

lemma render_board:
  "prepare site ''Board'' fresh_page = (Inr (Some board_template), board_prepared)"
  "render (Suc (Suc 0)) site ''Board'' fresh_page = Some (Inr board_rendered, board_final)"
  "renderNestedComponents (Suc 0) site [([0], ''Badge'')] [] board_template board_prepared =
     Some (Inr (Element ''div'' []
                 [badge_element, Element ''i'' [(''data-component'', ''Card'')] [],
                  Element ''i'' [(''data-component'', ''Card'')] []]), board_first)"
  "resolve (Suc 0) site ''Card'' board_first = Some (Inr card_element, board_second)"
  by (simp_all add: site_facts fresh_page_def board_final_def board_third_def board_second_def
      board_first_def board_prepared_def card_events_def badge_events_def render_defs resolve_def
      board_template_def card_element_def badge_element_def board_rendered_def)

lemma render_clash:
  "render (Suc (Suc 0)) clash_site ''Page'' fresh_page = Some (Inr page_rendered, clash_final)"
  by (simp add: site_facts clash_site_facts fresh_page_def clash_final_def page_final_def
      page_nested_def page_prepared_def
      card_events_def render_defs page_template_def card_element_def page_rendered_def)

lemma render_nest:
  "render (Suc (Suc 0)) site ''Nest'' fresh_page = Some (Inr nest_rendered, nest_final)"
  by (simp add: site_facts fresh_page_def nest_final_def card_events_def render_defs
      nest_template_def card_element_def wrap_element_def nest_rendered_def)

subsection \<open>Order of resolution\<close>

text \<open>The loop over a list of placeholders is the loop over its first part followed by the
  loop over the rest, which starts in the state, with the tree and with the replaced paths
  that the first part left.\<close>

lemma renderNested_append:
  "renderNestedComponents n env (ps @ qs) replaced el b =
     (case renderNestedComponents n env ps replaced el b of
        None \<Rightarrow> None
      | Some (Inl e, b1) \<Rightarrow> Some (Inl e, b1)
      | Some (Inr el1, b1) \<Rightarrow>
          renderNestedComponents n env qs
            (rev (map fst (filter (\<lambda>a. snd a \<noteq> []) ps)) @ replaced) el1 b1)"
proof (induction ps arbitrary: replaced el b)
  case Nil
  show ?case by simp
next
  case (Cons a ps)
  obtain q d where a: "a = (q, d)" by (cases a)
  show ?case
  proof (cases "d = []")
    case True
    have l: "renderNestedComponents n env ((a # ps) @ qs) replaced el b =
        renderNestedComponents n env (ps @ qs) replaced el b"
      using a True by simp
    have m: "renderNestedComponents n env (a # ps) replaced el b =
        renderNestedComponents n env ps replaced el b"
      using a True by simp
    have f: "filter (\<lambda>a. snd a \<noteq> []) (a # ps) = filter (\<lambda>a. snd a \<noteq> []) ps"
      using a True by simp
    show ?thesis unfolding l m f by (rule Cons.IH)
  next
    case False
    have f: "rev (map fst (filter (\<lambda>a. snd a \<noteq> []) (a # ps))) @ replaced =
        rev (map fst (filter (\<lambda>a. snd a \<noteq> []) ps)) @ q # replaced"
      using a False by simp
    have l: "renderNestedComponents n env ((a # ps) @ qs) replaced el b =
        (case resolve n env d b of
           None \<Rightarrow> None
         | Some (Inl e, b2) \<Rightarrow> Some (Inl e, b2)
         | Some (Inr nestedElement, b2) \<Rightarrow>
             renderNestedComponents n env (ps @ qs) (q # replaced)
               (if \<exists>q' \<in> set replaced. prefix q' q then el else replace_at q nestedElement el) b2)"
      unfolding a append_Cons by (rule renderNested_Cons[OF False])
    have m: "renderNestedComponents n env (a # ps) replaced el b =
        (case resolve n env d b of
           None \<Rightarrow> None
         | Some (Inl e, b2) \<Rightarrow> Some (Inl e, b2)
         | Some (Inr nestedElement, b2) \<Rightarrow>
             renderNestedComponents n env ps (q # replaced)
               (if \<exists>q' \<in> set replaced. prefix q' q then el else replace_at q nestedElement el) b2)"
      unfolding a by (rule renderNested_Cons[OF False])
    show ?thesis
    proof (cases "resolve n env d b")
      case None
      then show ?thesis unfolding l m by simp
    next
      case (Some rb)
      obtain r0 b0 where rb: "rb = (r0, b0)" by (cases rb)
      show ?thesis
      proof (cases r0)
        case (Inl e)
        with Some rb show ?thesis unfolding l m by simp
      next
        case (Inr child)
        have "renderNestedComponents n env ((a # ps) @ qs) replaced el b =
            renderNestedComponents n env (ps @ qs) (q # replaced)
              (if \<exists>q' \<in> set replaced. prefix q' q then el else replace_at q child el) b0"
          unfolding l using Some rb Inr by simp
        moreover have "renderNestedComponents n env (a # ps) replaced el b =
            renderNestedComponents n env ps (q # replaced)
              (if \<exists>q' \<in> set replaced. prefix q' q then el else replace_at q child el) b0"
          unfolding m using Some rb Inr by simp
        ultimately show ?thesis unfolding f by (simp only: Cons.IH)
      qed
    qed
  qed
qed

text \<open>How \<open>render\<close> ends once the first four statements of \<open>#setup\<close> have produced an
  element: with the outcome of the placeholder loop.\<close>

lemma render_loop:
  assumes "render (Suc n) env name b = Some (res, b')"
    and "prepare env name b = (Inr (Some el), b1)" and "placeholders el \<noteq> []"
  shows "\<exists>r s. renderNestedComponents n env (placeholders el) [] el b1 = Some (r, s) \<and>
           (case r of
              Inl e \<Rightarrow> res = Inl RenderError \<and> b' = logged [ConsoleError e] s
            | Inr el' \<Rightarrow> res = Inr el' \<and> b' = logged [Initialize name] s)"
proof -
  from assms(3) obtain t as cs where el: "el = Element t as cs" by (cases el) auto
  from assms(1,2) el obtain r s where
    rn: "renderNestedComponents n env (placeholders el) [] el b1 = Some (r, s)"
    by (auto split: option.splits)
  from assms(1,2) el rn have
    "case r of
       Inl e \<Rightarrow> res = Inl RenderError \<and> b' = logged [ConsoleError e] s
     | Inr el' \<Rightarrow> res = Inr el' \<and> b' = logged [Initialize name] s"
    by (cases r) (auto simp: caught_def)
  with rn show ?thesis by blast
qed

text \<open>
  C4.  Let a render of a component return, let \<open>el\<close> be the element parsed from its
  template and \<open>b1\<close> the state after the first four statements of \<open>#setup\<close>, and take
  any placeholder \<open>(p, c)\<close> with a non-empty name in the list of placeholders of \<open>el\<close>,
  with \<open>ps\<close> before it and \<open>qs\<close> after it.

  The list is in document order: its paths are strictly increasing in the order of a
  depth-first traversal, and it holds exactly the descendants of \<open>el\<close> that are elements
  with the attribute, each with the value of the attribute.

  Either one of the earlier placeholders \<open>ps\<close> failed, and the render ended with the
  error of \<open>#setup\<close> and nothing was done for \<open>(p, c)\<close>; or the loop over all of
  \<open>ps\<close> had returned, in a state \<open>s1\<close>, before the resolution of \<open>c\<close> began in
  exactly that state.  The resolution of \<open>c\<close>, which includes the render of all its
  descendants, returns in a state \<open>s2\<close>; everything it did lies in one block of the
  event record, behind all events of the earlier siblings, starting with the import of the
  child's module and, on success, ending with the child's \<open>initialize\<close>.  If it failed,
  the render ends there and no later sibling is begun; otherwise the later siblings \<open>qs\<close>
  are processed starting from \<open>s2\<close>, with the child attached, so all their events come
  after that block, and the render ends with the outcome of that loop.
\<close>

theorem siblings_resolved_in_sequence:
  assumes "render (Suc n) env name b = Some (res, b')"
    and "prepare env name b = (Inr (Some el), b1)"
    and "placeholders el = ps @ (p, c) # qs"
    and "c \<noteq> []"
  shows "sorted_wrt precedes (map fst (placeholders el)) \<and>
         (\<forall>q v. (q, v) \<in> set (placeholders el) \<longleftrightarrow>
            q \<noteq> [] \<and> (\<exists>tag as cs. get_at q el = Some (Element tag as cs) \<and>
                          map_of as ''data-component'' = Some v)) \<and>
         ((\<exists>e s1. renderNestedComponents n env ps [] el b1 = Some (Inl e, s1) \<and>
             res = Inl RenderError \<and> b' = logged [ConsoleError e] s1) \<or>
          (\<exists>el1 s1 path r2 s2.
             renderNestedComponents n env ps [] el b1 = Some (Inr el1, s1) \<and>
             module_path env s1 c = Inr path \<and>
             resolve n env c s1 = Some (r2, s2) \<and>
             prefix (trace b1) (trace s1) \<and>
             prefix (trace s1 @ [Import path]) (trace s2) \<and>
             (case r2 of
                Inl e \<Rightarrow> res = Inl RenderError \<and> b' = logged [ConsoleError e] s2
              | Inr child \<Rightarrow>
                  (\<exists>cls. last (trace s2) = Initialize cls) \<and>
                  (\<exists>r3 s3.
                     renderNestedComponents n env qs
                       (p # rev (map fst (filter (\<lambda>a. snd a \<noteq> []) ps)))
                       (if \<exists>q \<in> set (map fst (filter (\<lambda>a. snd a \<noteq> []) ps)). prefix q p
                        then el1 else replace_at p child el1) s2 = Some (r3, s3) \<and>
                     prefix (trace s2) (trace s3) \<and>
                     (case r3 of
                        Inl e \<Rightarrow> res = Inl RenderError \<and> b' = logged [ConsoleError e] s3
                      | Inr el' \<Rightarrow> res = Inr el' \<and> b' = logged [Initialize name] s3)))))"
proof -
  let ?named = "map fst (filter (\<lambda>a. snd a \<noteq> []) ps)"
  have order: "sorted_wrt precedes (map fst (placeholders el))"
    by (rule placeholders_sorted(1))
  have exact: "\<forall>q v. (q, v) \<in> set (placeholders el) \<longleftrightarrow>
            q \<noteq> [] \<and> (\<exists>tag as cs. get_at q el = Some (Element tag as cs) \<and>
                          map_of as ''data-component'' = Some v)"
    using placeholders_iff(1)[of _ _ el] by blast
  from assms(3) have ne: "placeholders el \<noteq> []" by simp
  from render_loop[OF assms(1,2) ne] obtain r s where
    rn: "renderNestedComponents n env (ps @ (p, c) # qs) [] el b1 = Some (r, s)"
    and fin: "case r of
              Inl e \<Rightarrow> res = Inl RenderError \<and> b' = logged [ConsoleError e] s
            | Inr el' \<Rightarrow> res = Inr el' \<and> b' = logged [Initialize name] s"
    unfolding assms(3) by blast
  note rn' = rn[unfolded renderNested_append]
  then obtain r1 s1 where first: "renderNestedComponents n env ps [] el b1 = Some (r1, s1)"
    by (cases "renderNestedComponents n env ps [] el b1") auto
  have seq: "(\<exists>e s1. renderNestedComponents n env ps [] el b1 = Some (Inl e, s1) \<and>
             res = Inl RenderError \<and> b' = logged [ConsoleError e] s1) \<or>
          (\<exists>el1 s1 path r2 s2.
             renderNestedComponents n env ps [] el b1 = Some (Inr el1, s1) \<and>
             module_path env s1 c = Inr path \<and>
             resolve n env c s1 = Some (r2, s2) \<and>
             prefix (trace b1) (trace s1) \<and>
             prefix (trace s1 @ [Import path]) (trace s2) \<and>
             (case r2 of
                Inl e \<Rightarrow> res = Inl RenderError \<and> b' = logged [ConsoleError e] s2
              | Inr child \<Rightarrow>
                  (\<exists>cls. last (trace s2) = Initialize cls) \<and>
                  (\<exists>r3 s3.
                     renderNestedComponents n env qs (p # rev ?named)
                       (if \<exists>q \<in> set ?named. prefix q p
                        then el1 else replace_at p child el1) s2 = Some (r3, s3) \<and>
                     prefix (trace s2) (trace s3) \<and>
                     (case r3 of
                        Inl e \<Rightarrow> res = Inl RenderError \<and> b' = logged [ConsoleError e] s3
                      | Inr el' \<Rightarrow> res = Inr el' \<and> b' = logged [Initialize name] s3))))"
  proof (cases r1)
    case (Inl e)
    with rn' first have "r = Inl e" "s = s1" by simp_all
    with fin first Inl show ?thesis by auto
  next
    case (Inr el1)
    with rn' first have
      run: "renderNestedComponents n env ((p, c) # qs) (rev ?named) el1 s1 = Some (r, s)"
      by simp
    note run' = run[unfolded renderNested_Cons[OF assms(4)]]
    then obtain r2 s2 where rs: "resolve n env c s1 = Some (r2, s2)"
      by (cases "resolve n env c s1") auto
    from render_extends_all(2)[OF first] have e1: "extends b1 s1" .
    then have p1: "prefix (trace b1) (trace s1)" by (simp add: extends_def)
    from prepare_config[OF assms(2)] obtain dir where cfg: "config b1 = Some (Directory dir)"
      by blast
    from config_extends[OF e1 cfg] have "config s1 = Some (Directory dir)" .
    from module_path_directory[OF this] obtain path where mp: "module_path env s1 c = Inr path"
      by blast
    note tr = resolve_trace[OF rs mp]
    have "case r2 of
                Inl e \<Rightarrow> res = Inl RenderError \<and> b' = logged [ConsoleError e] s2
              | Inr child \<Rightarrow>
                  (\<exists>cls. last (trace s2) = Initialize cls) \<and>
                  (\<exists>r3 s3.
                     renderNestedComponents n env qs (p # rev ?named)
                       (if \<exists>q \<in> set ?named. prefix q p
                        then el1 else replace_at p child el1) s2 = Some (r3, s3) \<and>
                     prefix (trace s2) (trace s3) \<and>
                     (case r3 of
                        Inl e \<Rightarrow> res = Inl RenderError \<and> b' = logged [ConsoleError e] s3
                      | Inr el' \<Rightarrow> res = Inr el' \<and> b' = logged [Initialize name] s3))"
    proof (cases r2)
      case (Inl e)
      with run' rs have "r = Inl e" "s = s2" by simp_all
      with fin Inl show ?thesis by simp
    next
      case r2: (Inr child)
      with run' rs have rest: "renderNestedComponents n env qs (p # rev ?named)
            (if \<exists>q \<in> set ?named. prefix q p then el1 else replace_at p child el1) s2 = Some (r, s)"
        by simp
      from render_extends_all(2)[OF rest] have "prefix (trace s2) (trace s)"
        by (simp add: extends_def)
      with rest fin tr(2)[OF r2] r2 show ?thesis by auto
    qed
    with first Inr mp rs p1 tr(1) show ?thesis by blast
  qed
  from order exact seq show ?thesis by blast
qed

text \<open>The render of \<open>Board\<close>: the placeholder for \<open>Badge\<close> is resolved first; the
  resolution of the first \<open>Card\<close> starts in the state that \<open>Badge\<close> left and ends with
  the \<open>initialize\<close> of the card; the second \<open>Card\<close> starts from there.\<close>

theorem siblings_resolved_in_sequence_witness:
  "render (Suc (Suc 0)) site ''Board'' fresh_page = Some (Inr board_rendered, board_final) \<and>
   prepare site ''Board'' fresh_page = (Inr (Some board_template), board_prepared) \<and>
   placeholders board_template = [([0], ''Badge'')] @ ([1], ''Card'') # [([2], ''Card'')] \<and>
   sorted_wrt precedes [[0], [1], [2]] \<and>
   (\<exists>el1 r3.
      renderNestedComponents (Suc 0) site [([0], ''Badge'')] [] board_template board_prepared =
        Some (Inr el1, board_first) \<and>
      module_path site board_first ''Card'' = Inr ''/cards/Card.js'' \<and>
      resolve (Suc 0) site ''Card'' board_first = Some (Inr card_element, board_second) \<and>
      prefix (trace board_prepared) (trace board_first) \<and>
      prefix (trace board_first @ [Import ''/cards/Card.js'']) (trace board_second) \<and>
      last (trace board_second) = Initialize ''Card'' \<and>
      renderNestedComponents (Suc 0) site [([2], ''Card'')] [[1], [0]]
        (replace_at [1] card_element el1) board_second = Some (r3, board_third) \<and>
      prefix (trace board_second) (trace board_third) \<and>
      board_final = logged [Initialize ''Board''] board_third)"
proof -
  have c: "''Card'' \<noteq> []" by simp
  note t = siblings_resolved_in_sequence[OF render_board(2) render_board(1) placeholders_board c]
  from t have o: "sorted_wrt precedes (map fst (placeholders board_template))" by blast
  note d = t[THEN conjunct2, THEN conjunct2]
  have srt: "sorted_wrt precedes [[0], [1], [2]]"
    using o unfolding placeholders_board by simp
  from d have "\<exists>el1 r3.
      renderNestedComponents (Suc 0) site [([0], ''Badge'')] [] board_template board_prepared =
        Some (Inr el1, board_first) \<and>
      module_path site board_first ''Card'' = Inr ''/cards/Card.js'' \<and>
      resolve (Suc 0) site ''Card'' board_first = Some (Inr card_element, board_second) \<and>
      prefix (trace board_prepared) (trace board_first) \<and>
      prefix (trace board_first @ [Import ''/cards/Card.js'']) (trace board_second) \<and>
      last (trace board_second) = Initialize ''Card'' \<and>
      renderNestedComponents (Suc 0) site [([2], ''Card'')] [[1], [0]]
        (replace_at [1] card_element el1) board_second = Some (r3, board_third) \<and>
      prefix (trace board_second) (trace board_third) \<and>
      board_final = logged [Initialize ''Board''] board_third"
  proof (elim disjE exE conjE)
    fix e s1
    assume "(Inr board_rendered :: error + node) = Inl RenderError"
    then show ?thesis by simp
  next
    fix el1 s1 path r2 s2
    assume k: "renderNestedComponents (Suc 0) site [([0], ''Badge'')] [] board_template board_prepared =
          Some (Inr el1, s1)"
      "module_path site s1 ''Card'' = Inr path"
      "resolve (Suc 0) site ''Card'' s1 = Some (r2, s2)"
      "prefix (trace board_prepared) (trace s1)"
      "prefix (trace s1 @ [Import path]) (trace s2)"
      "case r2 of
         Inl e \<Rightarrow> (Inr board_rendered :: error + node) = Inl RenderError \<and>
                  board_final = logged [ConsoleError e] s2
       | Inr child \<Rightarrow>
           (\<exists>cls. last (trace s2) = Initialize cls) \<and>
           (\<exists>r3 s3.
              renderNestedComponents (Suc 0) site [([2], ''Card'')]
                ([1] # rev (map fst (filter (\<lambda>a. snd a \<noteq> []) [([0], ''Badge'')])))
                (if \<exists>q \<in> set (map fst (filter (\<lambda>a. snd a \<noteq> []) [([0::nat], ''Badge'')])). prefix q [1]
                 then el1 else replace_at [1] child el1) s2 = Some (r3, s3) \<and>
              prefix (trace s2) (trace s3) \<and>
              (case r3 of
                 Inl e \<Rightarrow> (Inr board_rendered :: error + node) = Inl RenderError \<and>
                          board_final = logged [ConsoleError e] s3
               | Inr el' \<Rightarrow> (Inr board_rendered :: error + node) = Inr el' \<and>
                           board_final = logged [Initialize ''Board''] s3))"
    from k(1) render_board(3) have s1: "s1 = board_first" by simp
    from k(3) s1 render_board(4) have r2: "r2 = Inr card_element" "s2 = board_second" by simp_all
    from k(2) s1 have path: "path = ''/cards/Card.js''"
      by (simp add: board_first_def board_prepared_def render_defs site_facts)
    from k(6) obtain r3 s3 where
      raw: "renderNestedComponents (Suc 0) site [([2], ''Card'')]
                ([1] # rev (map fst (filter (\<lambda>a. snd a \<noteq> []) [([0], ''Badge'')])))
                (if \<exists>q \<in> set (map fst (filter (\<lambda>a. snd a \<noteq> []) [([0::nat], ''Badge'')])). prefix q [1]
                 then el1 else replace_at [1] card_element el1) board_second = Some (r3, s3)"
        "prefix (trace board_second) (trace s3)"
        "case r3 of
           Inl e \<Rightarrow> (Inr board_rendered :: error + node) = Inl RenderError \<and>
                    board_final = logged [ConsoleError e] s3
         | Inr el' \<Rightarrow> (Inr board_rendered :: error + node) = Inr el' \<and>
                     board_final = logged [Initialize ''Board''] s3"
      unfolding r2 sum.case by blast
    have l: "renderNestedComponents (Suc 0) site [([2], ''Card'')] [[1], [0]]
            (replace_at [1] card_element el1) board_second = Some (r3, s3)"
        "prefix (trace board_second) (trace s3)"
        "case r3 of
           Inl e \<Rightarrow> (Inr board_rendered :: error + node) = Inl RenderError \<and>
                    board_final = logged [ConsoleError e] s3
         | Inr el' \<Rightarrow> (Inr board_rendered :: error + node) = Inr el' \<and>
                     board_final = logged [Initialize ''Board''] s3"
      using raw by (simp_all del: renderNestedComponents.simps)
    from l(3) have f: "board_final = logged [Initialize ''Board''] s3" by (cases r3) simp_all
    have s3: "s3 = board_third"
      using f by (cases s3) (simp add: board_final_def logged_def board_third_def
          board_second_def board_first_def board_prepared_def)
    have la: "last (trace board_second) = Initialize ''Card''"
      by (simp add: board_second_def card_events_def)
    have w: "renderNestedComponents (Suc 0) site [([0], ''Badge'')] [] board_template board_prepared =
          Some (Inr el1, board_first) \<and>
        module_path site board_first ''Card'' = Inr ''/cards/Card.js'' \<and>
        resolve (Suc 0) site ''Card'' board_first = Some (Inr card_element, board_second) \<and>
        prefix (trace board_prepared) (trace board_first) \<and>
        prefix (trace board_first @ [Import ''/cards/Card.js'']) (trace board_second) \<and>
        last (trace board_second) = Initialize ''Card'' \<and>
        renderNestedComponents (Suc 0) site [([2], ''Card'')] [[1], [0]]
          (replace_at [1] card_element el1) board_second = Some (r3, board_third) \<and>
        prefix (trace board_second) (trace board_third) \<and>
        board_final = logged [Initialize ''Board''] board_third"
        using k(1,2,3,4,5) l(1,2) f la unfolding s1 r2 path s3 by (intro conjI)
  then show ?thesis by blast
  qed
  with render_board(2) render_board(1) placeholders_board srt show ?thesis by blast
qed

subsection \<open>Styles are registered once\<close>

lemma renders_extends: "renders n env cs b = Some b' \<Longrightarrow> extends b b'"
proof (induction cs arbitrary: b)
  case Nil
  then show ?case by (simp add: extends_refl)
next
  case (Cons c cs)
  from Cons.prems obtain r b1 where r: "render n env c b = Some (r, b1)"
    and rest: "renders n env cs b1 = Some b'"
    by (auto simp del: render.simps split: option.splits)
  from render_extends_all(3)[OF r] Cons.IH[OF rest] show ?case by (rule extends_trans)
qed

text \<open>
  C5 (as amended).  Let the ids of the styles in the head be distinct to begin with, as
  they are on a page without styles of its own, and let any sequence of renders run,
  followed by one more.  Afterwards, whatever the outcome of each render, the ids are
  still distinct and no style was removed or changed, so every component type has at most
  one style element.  If moreover the last render succeeds and its template holds two
  placeholders of the same type \<open>T\<close>, neither of them inside another placeholder, whose
  module exports the class \<open>cls\<close>, and no element of the page or of the mounted content
  uses the id \<open>cls-styles\<close>, then the head holds exactly one style element of \<open>cls\<close>,
  and the rendered tree holds, at the place of either placeholder, an element returned by
  a successful render of \<open>cls\<close>.
\<close>

theorem styles_registered_once:
  assumes "distinct (map fst (head b0))" and "renders k env names b0 = Some b"
    and "render n env name b = Some (res, b')"
  shows "distinct (map fst (head b')) \<and> prefix (head b0) (head b') \<and>
         (\<forall>T. style_count b' T \<le> 1) \<and>
         (\<forall>m el' el b1 i j p q T path cls.
            n = Suc m \<and> res = Inr el' \<and> prepare env name b = (Inr (Some el), b1) \<and>
            i < j \<and> j < length (placeholders el) \<and>
            placeholders el ! i = (p, T) \<and> placeholders el ! j = (q, T) \<and> T \<noteq> [] \<and>
            (\<forall>k < length (placeholders el). k \<noteq> i \<longrightarrow> \<not> prefix (fst (placeholders el ! k)) p) \<and>
            (\<forall>k < length (placeholders el). k \<noteq> j \<longrightarrow> \<not> prefix (fst (placeholders el ! k)) q) \<and>
            module_path env b1 T = Inr path \<and> import_module env path = Some cls \<and>
            cls @ ''-styles'' \<notin> set (page_ids env) \<and> cls @ ''-styles'' \<notin> set (nodes_ids (mounted b))
          \<longrightarrow> style_count b' cls = 1 \<and>
              (\<exists>c1 s1 s1' c2 s2 s2'.
                 render m env cls s1 = Some (Inr c1, s1') \<and> get_at p el' = Some c1 \<and>
                 render m env cls s2 = Some (Inr c2, s2') \<and> get_at q el' = Some c2))"
proof -
  from renders_extends[OF assms(2)] have ext0: "extends b0 b" .
  from render_extends_all(3)[OF assms(3)] have ext: "extends b b'" .
  from ext0 ext have "extends b0 b'" by (rule extends_trans)
  with assms(1) have d: "distinct (map fst (head b'))" and pre: "prefix (head b0) (head b')"
    by (simp_all add: extends_def)
  from ext have mo: "mounted b' = mounted b" by (simp add: extends_def)
  have le: "\<forall>T. style_count b' T \<le> 1"
    using count_distinct_keys[OF d] by (simp add: style_count_def)
  have two: "style_count b' cls = 1 \<and>
              (\<exists>c1 s1 s1' c2 s2 s2'.
                 render m env cls s1 = Some (Inr c1, s1') \<and> get_at p el' = Some c1 \<and>
                 render m env cls s2 = Some (Inr c2, s2') \<and> get_at q el' = Some c2)"
    if h: "n = Suc m" "res = Inr el'" "prepare env name b = (Inr (Some el), b1)"
      "i < j" "j < length (placeholders el)"
      "placeholders el ! i = (p, T)" "placeholders el ! j = (q, T)" "T \<noteq> []"
      "\<forall>k < length (placeholders el). k \<noteq> i \<longrightarrow> \<not> prefix (fst (placeholders el ! k)) p"
      "\<forall>k < length (placeholders el). k \<noteq> j \<longrightarrow> \<not> prefix (fst (placeholders el ! k)) q"
      "module_path env b1 T = Inr path" "import_module env path = Some cls"
      "cls @ ''-styles'' \<notin> set (page_ids env)" "cls @ ''-styles'' \<notin> set (nodes_ids (mounted b))"
    for m el' el b1 i j p q T path cls
  proof -
    from assms(3) h(1,2) have r: "render (Suc m) env name b = Some (Inr el', b')" by simp
    from render_success_nested[OF r h(3)] obtain b2 where
      rn: "renderNestedComponents m env (placeholders el) [] el b1 = Some (Inr el', b2)"
      and e0: "extends b2 b'" by blast
    from prepare_config[OF h(3)] obtain dir where cfg: "config b1 = Some (Directory dir)"
      by blast
    have il: "i < length (placeholders el)" using h(4,5) by simp
    have vp: "get_at p el \<noteq> None"
      using placeholders_valid(1)[of p T el] nth_mem[OF il] h(6) by simp
    have vq: "get_at q el \<noteq> None"
      using placeholders_valid(1)[of q T el] nth_mem[OF h(5)] h(7) by simp
    from attached_child_styled[OF rn cfg il h(6) h(8) vp h(9) h(11) h(12)] obtain c1 s1 s1' where
      a1: "render m env cls s1 = Some (Inr c1, s1')" "get_at p el' = Some c1"
        "getElementById env b2 (cls @ ''-styles'')" by blast
    from attached_child_styled[OF rn cfg h(5) h(7) h(8) vq h(10) h(11) h(12)] obtain c2 s2 s2' where
      a2: "render m env cls s2 = Some (Inr c2, s2')" "get_at q el' = Some c2" by blast
    from a1(3) e0 have "getElementById env b' (cls @ ''-styles'')"
      by (rule getElementById_extends[rotated])
    with h(13,14) mo have "cls @ ''-styles'' \<in> fst ` set (head b')"
      by (simp add: getElementById_def)
    with count_distinct_keys[OF d, of "cls @ ''-styles''"] have "style_count b' cls = 1"
      by (simp add: style_count_def)
    with a1 a2 show ?thesis by blast
  qed
  from d pre le two show ?thesis by blast
qed

text \<open>\<open>Card\<close> rendered on its own, then \<open>Page\<close> with its two cards.\<close>

theorem styles_registered_once_witness:
  "distinct (map fst (head fresh_page)) \<and>
   renders (Suc 0) site [''Card''] fresh_page = Some card_first \<and>
   render (Suc (Suc 0)) site ''Page'' card_first = Some (Inr page_rendered, page_second) \<and>
   placeholders page_template = [([0], ''Card''), ([1], ''Card'')] \<and>
   distinct (map fst (head page_second)) \<and>
   style_count page_second ''Card'' = 1 \<and>
   (\<exists>c1 s1 s1' c2 s2 s2'.
      render (Suc 0) site ''Card'' s1 = Some (Inr c1, s1') \<and> get_at [0] page_rendered = Some c1 \<and>
      render (Suc 0) site ''Card'' s2 = Some (Inr c2, s2') \<and> get_at [1] page_rendered = Some c2)"
proof -
  have h1: "distinct (map fst (head fresh_page))" by (simp add: fresh_page_def)
  note h2 = card_then_page(1)
  note h3 = card_then_page(3)
  note t = styles_registered_once[OF h1 h2 h3]
  have mp: "module_path site page_second_prepared ''Card'' = Inr ''/cards/Card.js''"
    by (simp add: module_path_def directory_entry_def page_second_prepared_def card_first_def
        site_facts js_string_def)
  have m0: "mounted card_first = []" by (simp add: card_first_def)
  have hyps: "Suc (Suc 0) = Suc (Suc 0) \<and> (Inr page_rendered :: error + node) = Inr page_rendered \<and>
      prepare site ''Page'' card_first = (Inr (Some page_template), page_second_prepared) \<and>
      (0::nat) < 1 \<and> 1 < length (placeholders page_template) \<and>
      placeholders page_template ! 0 = ([0], ''Card'') \<and>
      placeholders page_template ! 1 = ([1], ''Card'') \<and> ''Card'' \<noteq> [] \<and>
      (\<forall>k < length (placeholders page_template). k \<noteq> 0 \<longrightarrow>
          \<not> prefix (fst (placeholders page_template ! k)) [0]) \<and>
      (\<forall>k < length (placeholders page_template). k \<noteq> 1 \<longrightarrow>
          \<not> prefix (fst (placeholders page_template ! k)) [1]) \<and>
      module_path site page_second_prepared ''Card'' = Inr ''/cards/Card.js'' \<and>
      import_module site ''/cards/Card.js'' = Some ''Card'' \<and>
      ''Card'' @ ''-styles'' \<notin> set (page_ids site) \<and>
      ''Card'' @ ''-styles'' \<notin> set (nodes_ids (mounted card_first))"
    by (simp add: card_then_page(2) placeholders_page mp site_facts m0 less_Suc_eq)
  from t[THEN conjunct2, THEN conjunct2, THEN conjunct2, rule_format, OF hyps]
  have "style_count page_second ''Card'' = 1 \<and>
   (\<exists>c1 s1 s1' c2 s2 s2'.
      render (Suc 0) site ''Card'' s1 = Some (Inr c1, s1') \<and> get_at [0] page_rendered = Some c1 \<and>
      render (Suc 0) site ''Card'' s2 = Some (Inr c2, s2') \<and> get_at [1] page_rendered = Some c2)" .
  with h1 h2 h3 t placeholders_page show ?thesis by blast
qed

text \<open>Without the two provisos the second half fails.  On a host page that has an
  element with the id \<open>Card-styles\<close>, the render of \<open>Page\<close> attaches both cards and
  registers no style for \<open>Card\<close>.  In \<open>Nest\<close> the two placeholders for \<open>Card\<close> lie
  inside the placeholder for \<open>Wrap\<close>: both are rendered and the style of \<open>Card\<close> is
  registered once, but neither element is part of the resulting tree.\<close>

theorem styles_counterexample:
  "render (Suc (Suc 0)) clash_site ''Page'' fresh_page = Some (Inr page_rendered, clash_final) \<and>
   placeholders page_template = [([0], ''Card''), ([1], ''Card'')] \<and>
   get_at [0] page_rendered = Some card_element \<and>
   get_at [1] page_rendered = Some card_element \<and>
   style_count clash_final ''Card'' = 0 \<and>
   render (Suc (Suc 0)) site ''Nest'' fresh_page = Some (Inr nest_rendered, nest_final) \<and>
   placeholders nest_template = [([0], ''Wrap''), ([0, 0], ''Card''), ([0, 1], ''Card'')] \<and>
   length (filter (\<lambda>e. e = Initialize ''Card'') (trace nest_final)) = 2 \<and>
   style_count nest_final ''Card'' = 1 \<and>
   nest_rendered = Element ''div'' [] [Element ''section'' [] []] \<and>
   get_at [0, 0] nest_rendered = None \<and> get_at [0, 1] nest_rendered = None"
proof -
  have a: "get_at [0] page_rendered = Some card_element"
    "get_at [1] page_rendered = Some card_element"
    by (simp_all add: page_rendered_def)
  have b: "style_count clash_final ''Card'' = 0"
    by (simp add: style_count_def clash_final_def page_final_def page_nested_def
        page_prepared_def)
  have c: "length (filter (\<lambda>e. e = Initialize ''Card'') (trace nest_final)) = 2"
    "style_count nest_final ''Card'' = 1"
    by (simp_all add: style_count_def nest_final_def card_events_def)
  have d: "nest_rendered = Element ''div'' [] [Element ''section'' [] []]"
    "get_at [0, 0] nest_rendered = None" "get_at [0, 1] nest_rendered = None"
    by (simp_all add: nest_rendered_def wrap_element_def)
  from render_clash placeholders_page a b render_nest placeholders_nest c d
  show ?thesis by (intro conjI)
qed

subsection \<open>Components without a directory entry\<close>

text \<open>For the component that \<open>render\<close> is called on, the missing entry is found in
  \<open>#setPaths\<close>, before any request for its template or styles: the only effect is the
  logged error, and \<open>render\<close> throws the general error of \<open>#setup\<close>.\<close>

lemma unconfigured_root_fails_before_fetch:
  "config b = Some (Directory dir) \<Longrightarrow> lookup dir name = Missing \<Longrightarrow>
     render (Suc n) env name b =
       Some (Inl RenderError, logged [ConsoleError (ComponentNotConfiguredError name)] b)"
  "config b = None \<Longrightarrow> load_json env ''./JamoComponentsConfig.json'' = Some (Directory dir) \<Longrightarrow>
   lookup dir name = Missing \<Longrightarrow>
     render (Suc n) env name b =
       Some (Inl RenderError,
             b\<lparr>config := Some (Directory dir),
               trace := trace b @ [Fetch ''./JamoComponentsConfig.json'',
                                   ConsoleError (ComponentNotConfiguredError name)]\<rparr>)"
  by (simp_all add: prepare_def setPaths_def loadConfig_def no_config_def directory_entry_def
      caught_def logged_def)

text \<open>The directory is read like any other object.  An entry that the directory inherits
  from \<open>Object.prototype\<close> passes the check of \<open>#setPaths\<close> and is turned into a
  string; a configuration without a \<open>componentDirectory\<close> makes the read itself fail.\<close>

lemma directory_edge_cases:
  "module_path site page_prepared ''constructor'' =
     Inr ''/function Object() { [native code] }constructor.js''"
  "fst (setPaths site ''constructor'' page_prepared) =
     Inr (''function Object() { [native code] }constructor.html'',
          ''function Object() { [native code] }constructor.css'')"
  "fst (setPaths site ''Page'' (fresh_page\<lparr>config := Some NoDirectory\<rparr>)) = Inl TypeError"
  "render (Suc 0) site ''Page'' (fresh_page\<lparr>config := Some NoDirectory\<rparr>) =
     Some (Inl RenderError, fresh_page\<lparr>config := Some NoDirectory,
                                         trace := [ConsoleError TypeError]\<rparr>)"
proof -
  have l: "lookup site_directory ''constructor'' = Inherited (Builtin ''constructor'')"
    by (simp add: site_directory_def lookup_def object_prototype_def inherited_functions_def)
  have n: "native_text site ''constructor'' = ''function Object() { [native code] }''"
    by (simp add: site_def)
  show "module_path site page_prepared ''constructor'' =
     Inr ''/function Object() { [native code] }constructor.js''"
    by (simp add: module_path_def directory_entry_def js_string_def page_prepared_def l n)
  show "fst (setPaths site ''constructor'' page_prepared) =
     Inr (''function Object() { [native code] }constructor.html'',
          ''function Object() { [native code] }constructor.css'')"
    by (simp add: setPaths_def no_config_def directory_entry_def js_string_def
        page_prepared_def l n)
  show "fst (setPaths site ''Page'' (fresh_page\<lparr>config := Some NoDirectory\<rparr>)) = Inl TypeError"
    by (simp add: setPaths_def no_config_def directory_entry_def)
  show "render (Suc 0) site ''Page'' (fresh_page\<lparr>config := Some NoDirectory\<rparr>) =
     Some (Inl RenderError, fresh_page\<lparr>config := Some NoDirectory,
                                         trace := [ConsoleError TypeError]\<rparr>)"
    by (simp add: prepare_def setPaths_def no_config_def directory_entry_def caught_def
        logged_def fresh_page_def)
qed

text \<open>
  C6.  For a placeholder the directory entry is read in \<open>#renderNestedComponents\<close> and
  used without a check: the render of \<open>Broken\<close>, whose template names the unlisted
  component \<open>Ghost\<close>, starts the import of \<open>/undefinedGhost.js\<close>.  The import fails, the
  failure that is logged is that of the import, and no ComponentNotConfiguredError is
  raised anywhere.
\<close>

theorem unconfigured_child_is_imported:
  "render (Suc (Suc 0)) site ''Broken'' fresh_page =
     Some (Inl RenderError,
           \<lparr>config = Some (Directory site_directory),
            head = [(''Broken-styles'', [])], mounted = [], location_hash = [],
            trace = [Fetch ''./JamoComponentsConfig.json'',
                     Fetch ''broken/Broken.html'', Fetch ''broken/Broken.css'',
                     Import ''/undefinedGhost.js'',
                     ConsoleError (ModuleError ''/undefinedGhost.js'')]\<rparr>)"
  by (simp add: site_facts fresh_page_def render_defs broken_template_def)

subsection \<open>Routing to an unknown key\<close>

text \<open>
  C9.  When the current location has no entry in the route table, \<open>handleRouting\<close>
  returns normally, whatever the bound, and the only change is one logged error: the
  mounted content, the head and the configuration are as before.  When the location has
  an entry and the page load returns, the component was rendered in a browser whose root
  had been emptied, and the root then holds the rendered element, or nothing if the
  render failed.
\<close>

theorem invalid_route_keeps_content:
  "(routes app (location_hash b) = None \<longrightarrow>
      handleRouting n env app b =
        Some (Inr (), b\<lparr>trace := trace b @ [ConsoleError (InvalidPath (location_hash b))]\<rparr>)) \<and>
   (routes app (location_hash b) = Some page \<and> handleRouting n env app b = Some (r, b') \<longrightarrow>
      (\<exists>r1 b1. render n env page (b\<lparr>mounted := []\<rparr>) = Some (r1, b1) \<and>
         (case r1 of Inl e \<Rightarrow> r = Inl e \<and> mounted b' = []
          | Inr el \<Rightarrow> r = Inr () \<and> mounted b' = [el])))"
proof -
  have 1: "handleRouting n env app b =
        Some (Inr (), b\<lparr>trace := trace b @ [ConsoleError (InvalidPath (location_hash b))]\<rparr>)"
    if "routes app (location_hash b) = None"
    using that by (simp add: handleRouting_def logged_def)
  have 2: "\<exists>r1 b1. render n env page (b\<lparr>mounted := []\<rparr>) = Some (r1, b1) \<and>
         (case r1 of Inl e \<Rightarrow> r = Inl e \<and> mounted b' = []
          | Inr el \<Rightarrow> r = Inr () \<and> mounted b' = [el])"
    if h: "routes app (location_hash b) = Some page" "handleRouting n env app b = Some (r, b')"
  proof -
    from h obtain r1 b1 where rr: "render n env page (b\<lparr>mounted := []\<rparr>) = Some (r1, b1)"
      by (auto simp: handleRouting_def loadPage_def split: option.splits)
    from render_extends_all(3)[OF rr] have m: "mounted b1 = []" by (simp add: extends_def)
    from h rr m have "case r1 of Inl e \<Rightarrow> r = Inl e \<and> mounted b' = []
          | Inr el \<Rightarrow> r = Inr () \<and> mounted b' = [el]"
      by (auto simp: handleRouting_def loadPage_def split: sum.splits)
    with rr show ?thesis by blast
  qed
  from 1 2 show ?thesis by blast
qed

text \<open>The application with the route \<open>#/x\<close>, at the location \<open>#/y\<close> and at
  \<open>#/x\<close>.\<close>

theorem invalid_route_keeps_content_witness:
  "routes app_x (location_hash showing_y) = None \<and>
   handleRouting 0 site app_x showing_y =
     Some (Inr (), showing_y\<lparr>trace := [ConsoleError (InvalidPath ''#/y'')]\<rparr>) \<and>
   routes app_x ''#/x'' = Some ''Page'' \<and>
   handleRouting (Suc (Suc 0)) site app_x (showing_y\<lparr>location_hash := ''#/x''\<rparr>) =
     Some (Inr (), page_final\<lparr>location_hash := ''#/x'', mounted := [page_rendered]\<rparr>)"
proof -
  have a: "routes app_x (location_hash showing_y) = None"
    by (simp add: app_x_def addRoute_def showing_y_def)
  have b: "routes app_x (location_hash (showing_y\<lparr>location_hash := ''#/x''\<rparr>)) = Some ''Page''"
    by (simp add: app_x_def addRoute_def)
  have r: "render (Suc (Suc 0)) site ''Page'' (showing_y\<lparr>location_hash := ''#/x'', mounted := []\<rparr>) =
     Some (Inr page_rendered, page_final\<lparr>location_hash := ''#/x''\<rparr>)"
    by (simp add: site_facts showing_y_def page_final_def page_nested_def page_prepared_def
        card_events_def render_defs page_template_def card_element_def page_rendered_def)
  have hr: "handleRouting (Suc (Suc 0)) site app_x (showing_y\<lparr>location_hash := ''#/x''\<rparr>) =
     Some (Inr (), page_final\<lparr>location_hash := ''#/x'', mounted := [page_rendered]\<rparr>)"
    using b r by (simp add: handleRouting_def loadPage_def page_final_def page_nested_def
        page_prepared_def)
  from invalid_route_keeps_content[of app_x showing_y 0 site]
    invalid_route_keeps_content[of app_x "showing_y\<lparr>location_hash := ''#/x''\<rparr>" "Suc (Suc 0)" site
      "''Page''" "Inr ()" "page_final\<lparr>location_hash := ''#/x'', mounted := [page_rendered]\<rparr>"]
    a b hr
  show ?thesis by (simp add: showing_y_def)
qed

end
